theory Spec2Isabelle
  imports Main "HOL-Library.Word" "HOL-Library.AList"
begin

unbundle bit_operations_syntax

section \<open>Data model of Component.js\<close>

text \<open>
  A component handle is an object reference; the source tests it with \<open>!component\<close>, so the
  handle type has a null value: \<open>None\<close> is null/undefined, \<open>Some k\<close> is the component object
  at address \<open>k\<close>.  An entity argument is \<open>None\<close> when it is \<open>undefined\<close>.
\<close>

type_synonym comp = "nat option"

datatype error = EntityUndefined | EntityNotFound | NullComponent | TypeError

text \<open>
  A call either returns or throws; a throw in the middle of a function leaves the mutations
  made so far in place, so both outcomes carry the state.
\<close>

datatype 'a result = Ok 'a | Throw error 'a

fun state_of :: "'a result \<Rightarrow> 'a" where
  "state_of (Ok s) = s"
| "state_of (Throw e s) = s"

text \<open>The registration record stored by \<open>registerComponent\<close> in \<open>world[$componentMap]\<close>.\<close>

record regrec =
  generationId :: int
  bitflag :: nat
  store :: comp
  queries :: "nat list"
  notQueries :: "nat list"
  changedQueries :: "nat list"

text \<open>
  Modelled from the spec: the query objects of Query.js (absent).  Section 6 of the
  specification gives each query the ordered sets \<open>toRemove\<close>, \<open>entered\<close>, \<open>exited\<close>
  (supporting contains, add, remove), the list \<open>allComponents\<close> of required component
  handles, and a result set.  The sets are modelled up to their order.
\<close>

record query =
  allComponents :: "comp list"
  toRemove :: "nat set"
  entered :: "nat set"
  exited :: "nat set"
  results :: "nat set"

text \<open>
  Modelled from the spec: the component store built by \<open>createStore\<close> of Storage.js (absent).
  Section 3 of the specification describes a schema as fields that are numeric leaves or nested
  sections.  A leaf is a typed array, a section a plain object.  The remaining constructors are
  the other JavaScript values that \<open>componentSection[k]\<close> can evaluate to: \<open>undefined\<close>, and
  a number (an element of a typed array, or a numeric property assigned to a section).
  Numbers are the integral ones; \<open>Float32Array\<close> columns are left out, their element
  conversion being floating-point rounding.
\<close>

datatype elemkind = I8 | UI8 | UI8C | I16 | UI16 | I32 | UI32 | F64

datatype csection =
    Undefined
  | Num int
  | Column elemkind "int list"
  | Section "(string \<times> csection) list"

text \<open>
  The world.  The fields \<open>w_x\<close> are the properties \<open>world[$x]\<close> the source reads and writes.
  Objects shared by reference are kept in explicit heaps: \<open>h_query\<close> maps the address of a
  query object to the object (\<open>w_queries\<close> and the \<open>queries\<close> of a registration record hold
  addresses, in the insertion order of the JavaScript Set), and \<open>h_store\<close> maps the address of
  a component to its store (the component object is its own store).
  A generation of \<open>w_entityMasks\<close> is a \<open>Uint32Array\<close>.
\<close>

record world =
  w_bitflag :: nat
  w_size :: nat
  w_entityMasks :: "32 word list list"
  w_componentMap :: "comp \<rightharpoonup> regrec"
  w_queries :: "nat list"
  w_entitySparseSet :: "nat set"
  w_entityComponents :: "nat \<rightharpoonup> comp set"
  h_query :: "nat \<Rightarrow> query"
  h_store :: "nat \<Rightarrow> csection"

section \<open>Bitflag allocation and registration\<close>

text \<open>
  \<open>incrementBitflag\<close>: the cursor is a JavaScript number, doubled exactly; at \<open>2 ^ 31\<close> or
  more it restarts at 1 and a zero-filled \<open>Uint32Array(world[$size])\<close> is pushed.
\<close>

definition incrementBitflag :: "world \<Rightarrow> world" where
  "incrementBitflag w =
     (let w1 = w\<lparr>w_bitflag := w_bitflag w * 2\<rparr>
      in if w_bitflag w1 \<ge> 2 ^ 31
         then w1\<lparr>w_bitflag := 1,
                 w_entityMasks := w_entityMasks w1 @ [replicate (w_size w1) 0]\<rparr>
         else w1)"

text \<open>\<open>Set.prototype.add\<close> on a set kept as a duplicate-free list in insertion order.\<close>

definition set_add :: "'a \<Rightarrow> 'a list \<Rightarrow> 'a list" where
  "set_add x xs = (if x \<in> set xs then xs else xs @ [x])"

text \<open>
  \<open>registerComponent\<close>: throws on a null component; collects the queries whose
  \<open>allComponents\<close> includes the component; stores the record (overwriting any earlier one);
  then advances the cursor.
\<close>

definition registerComponent :: "world \<Rightarrow> comp \<Rightarrow> world result" where
  "registerComponent w c =
     (if c = None then Throw NullComponent w
      else
        let qs = foldl (\<lambda>acc q. if c \<in> set (allComponents (h_query w q))
                                 then set_add q acc else acc) [] (w_queries w);
            r = \<lparr>generationId = int (length (w_entityMasks w)) - 1,
                 bitflag = w_bitflag w,
                 store = c,
                 queries = qs,
                 notQueries = [],
                 changedQueries = []\<rparr>
        in Ok (incrementBitflag (w\<lparr>w_componentMap := (w_componentMap w)(c \<mapsto> r)\<rparr>)))"

text \<open>\<open>registerComponents\<close>: \<open>components.forEach\<close>, stopped by the first throw.\<close>

fun registerComponents :: "world \<Rightarrow> comp list \<Rightarrow> world result" where
  "registerComponents w [] = Ok w"
| "registerComponents w (c # cs) =
     (case registerComponent w c of
        Throw e w' \<Rightarrow> Throw e w'
      | Ok w' \<Rightarrow> registerComponents w' cs)"

section \<open>Membership test\<close>

text \<open>
  \<open>world[$entityMasks][generationId]\<close>: \<open>undefined\<close> when the index is not an index of the
  array, and reading a property of \<open>undefined\<close> throws a TypeError.
\<close>

definition generation :: "world \<Rightarrow> int \<Rightarrow> 32 word list option" where
  "generation w g =
     (if 0 \<le> g \<and> nat g < length (w_entityMasks w) then Some (w_entityMasks w ! nat g)
      else None)"

text \<open>
  Reading a \<open>Uint32Array\<close> out of range gives \<open>undefined\<close>, which the bitwise operators
  convert to 0.
\<close>

definition readMask :: "32 word list \<Rightarrow> nat \<Rightarrow> 32 word" where
  "readMask arr e = (if e < length arr then arr ! e else 0)"

text \<open>\<open>ToInt32\<close> of a non-negative integral number, as the bitwise operators apply it.\<close>

definition toInt32 :: "nat \<Rightarrow> 32 word" where
  "toInt32 n = word_of_nat n"

text \<open>
  \<open>hasComponent\<close>: \<open>mask & bitflag\<close> is a signed 32-bit integer, compared by \<open>===\<close> with the
  number \<open>bitflag\<close>.
\<close>

definition hasComponent :: "world \<Rightarrow> comp \<Rightarrow> nat \<Rightarrow> error + bool" where
  "hasComponent w c eid =
     (case w_componentMap w c of
        None \<Rightarrow> Inr False
      | Some r \<Rightarrow>
          (case generation w (generationId r) of
             None \<Rightarrow> Inl TypeError
           | Some arr \<Rightarrow> Inr (sint (readMask arr eid AND toInt32 (bitflag r)) = int (bitflag r))))"

section \<open>Membership mutation\<close>

text \<open>
  The functions of Query.js (absent) that the mutations call are parameters: any pure
  membership test, and any \<open>queryAddEntity\<close> and \<open>queryRemoveEntity\<close> whose effect on the
  state modelled here is a change of the query object they are handed.
\<close>

record qengine =
  queryCheckEntity :: "world \<Rightarrow> query \<Rightarrow> nat \<Rightarrow> bool"
  queryAddEntity :: "query \<Rightarrow> nat \<Rightarrow> query"
  queryRemoveEntity :: "world \<Rightarrow> query \<Rightarrow> nat \<Rightarrow> query"

text \<open>In-place change of the query object at address \<open>qa\<close>.\<close>

definition upd_query :: "nat \<Rightarrow> (query \<Rightarrow> query) \<Rightarrow> world \<Rightarrow> world" where
  "upd_query qa f w = w\<lparr>h_query := (h_query w)(qa := f (h_query w qa))\<rparr>"

text \<open>
  The callback of \<open>queries.forEach\<close> in \<open>addComponent\<close> (lines 143 to 155), for the query
  at address \<open>qa\<close>.  \<open>toRemove.remove\<close>, \<open>exited.remove\<close> and \<open>entered.remove\<close> delete
  one element of a set.
\<close>

definition addComponent_forEach :: "qengine \<Rightarrow> nat \<Rightarrow> world \<Rightarrow> nat \<Rightarrow> world" where
  "addComponent_forEach E eid w qa =
     (let w1 = upd_query qa (\<lambda>q. q\<lparr>toRemove := toRemove q - {eid}\<rparr>) w;
          match = queryCheckEntity E w1 (h_query w1 qa) eid;
          w2 = (if match
                then let w' = upd_query qa (\<lambda>q. q\<lparr>exited := exited q - {eid}\<rparr>) w1
                     in upd_query qa (\<lambda>q. queryAddEntity E q eid) w'
                else w1);
          w3 = (if \<not> match
                then let w' = upd_query qa (\<lambda>q. q\<lparr>entered := entered q - {eid}\<rparr>) w2
                     in upd_query qa (\<lambda>q. queryRemoveEntity E w' q eid) w'
                else w2)
      in w3)"

text \<open>The callback of \<open>queries.forEach\<close> in \<open>removeComponent\<close> (lines 229 to 241).\<close>

definition removeComponent_forEach :: "qengine \<Rightarrow> nat \<Rightarrow> world \<Rightarrow> nat \<Rightarrow> world" where
  "removeComponent_forEach E eid w qa =
     (let w1 = upd_query qa (\<lambda>q. q\<lparr>toRemove := toRemove q - {eid}\<rparr>) w;
          match = queryCheckEntity E w1 (h_query w1 qa) eid;
          w2 = (if match
                then let w' = upd_query qa (\<lambda>q. q\<lparr>exited := exited q - {eid}\<rparr>) w1
                     in upd_query qa (\<lambda>q. queryAddEntity E q eid) w'
                else w1);
          w3 = (if \<not> match
                then let w' = upd_query qa (\<lambda>q. q\<lparr>entered := entered q - {eid}\<rparr>) w2
                     in upd_query qa (\<lambda>q. queryRemoveEntity E w' q eid) w'
                else w2)
      in w3)"

text \<open>
  \<open>arr[eid] = v\<close> on a typed array: a write out of range is ignored.
\<close>

definition writeElem :: "'a list \<Rightarrow> nat \<Rightarrow> 'a \<Rightarrow> 'a list" where
  "writeElem arr e v = (if e < length arr then arr[e := v] else arr)"

text \<open>
  \<open>world[$entityMasks][generationId][eid] = v\<close>, for a generation that exists.
\<close>

definition writeMask :: "world \<Rightarrow> int \<Rightarrow> nat \<Rightarrow> 32 word \<Rightarrow> world" where
  "writeMask w g e v =
     w\<lparr>w_entityMasks := (w_entityMasks w)[nat g := writeElem (w_entityMasks w ! nat g) e v]\<rparr>"

text \<open>
  Modelled from the spec: \<open>resetStoreFor\<close> of Storage.js (absent), which by section 6 of
  the specification zeroes all leaf fields for one entity.
\<close>

fun resetStoreFor :: "csection \<Rightarrow> nat \<Rightarrow> csection" where
  "resetStoreFor (Column kd arr) eid = Column kd (writeElem arr eid 0)"
| "resetStoreFor (Section props) eid = Section (map (\<lambda>(k, s). (k, resetStoreFor s eid)) props)"
| "resetStoreFor Undefined eid = Undefined"
| "resetStoreFor (Num n) eid = Num n"

text \<open>The store of a component handle, and its replacement after an in-place change.\<close>

definition comp_section :: "world \<Rightarrow> comp \<Rightarrow> csection" where
  "comp_section w c = (case c of None \<Rightarrow> Undefined | Some k \<Rightarrow> h_store w k)"

definition set_comp_section :: "world \<Rightarrow> comp \<Rightarrow> csection \<Rightarrow> world" where
  "set_comp_section w c s =
     (case c of None \<Rightarrow> w | Some k \<Rightarrow> w\<lparr>h_store := (h_store w)(k := s)\<rparr>)"

text \<open>
  \<open>addComponent\<close>.  The parameter \<open>reset\<close> is \<open>None\<close> when the argument is omitted, and
  then takes its default.  Destructuring the record of an unregistered component, and
  \<open>world[$entityComponents].get(eid).add\<close> for an entity without an entry, throw a TypeError.
\<close>

definition addComponent :: "qengine \<Rightarrow> world \<Rightarrow> comp \<Rightarrow> nat option \<Rightarrow> bool option \<Rightarrow> world result" where
  "addComponent E w c eid reset =
     (case eid of
        None \<Rightarrow> Throw EntityUndefined w
      | Some e \<Rightarrow>
          if e \<notin> w_entitySparseSet w then Throw EntityNotFound w
          else
            (case (if w_componentMap w c = None then registerComponent w c else Ok w) of
               Throw err w1 \<Rightarrow> Throw err w1
             | Ok w1 \<Rightarrow>
                 (case hasComponent w1 c e of
                    Inl err \<Rightarrow> Throw err w1
                  | Inr True \<Rightarrow> Ok w1
                  | Inr False \<Rightarrow>
                      (case w_componentMap w1 c of
                         None \<Rightarrow> Throw TypeError w1
                       | Some r \<Rightarrow>
                           (case generation w1 (generationId r) of
                              None \<Rightarrow> Throw TypeError w1
                            | Some arr \<Rightarrow>
                                let w2 = writeMask w1 (generationId r) e
                                           (readMask arr e OR toInt32 (bitflag r));
                                    w3 = foldl (addComponent_forEach E e) w2 (queries r)
                                in (case w_entityComponents w3 e of
                                      None \<Rightarrow> Throw TypeError w3
                                    | Some cs \<Rightarrow>
                                        let w4 = w3\<lparr>w_entityComponents :=
                                                     (w_entityComponents w3)(e \<mapsto> insert c cs)\<rparr>
                                        in if (case reset of None \<Rightarrow> False | Some b \<Rightarrow> b)
                                           then Ok (set_comp_section w4 c
                                                      (resetStoreFor (comp_section w4 c) e))
                                           else Ok w4))))))"

text \<open>\<open>removeComponent\<close>; \<open>reset\<close> defaults to true.\<close>

definition removeComponent :: "qengine \<Rightarrow> world \<Rightarrow> comp \<Rightarrow> nat option \<Rightarrow> bool option \<Rightarrow> world result" where
  "removeComponent E w c eid reset =
     (case eid of
        None \<Rightarrow> Throw EntityUndefined w
      | Some e \<Rightarrow>
          if e \<notin> w_entitySparseSet w then Throw EntityNotFound w
          else
            (case hasComponent w c e of
               Inl err \<Rightarrow> Throw err w
             | Inr False \<Rightarrow> Ok w
             | Inr True \<Rightarrow>
                 (case w_componentMap w c of
                    None \<Rightarrow> Throw TypeError w
                  | Some r \<Rightarrow>
                      (case generation w (generationId r) of
                         None \<Rightarrow> Throw TypeError w
                       | Some arr \<Rightarrow>
                           let w2 = writeMask w (generationId r) e
                                      (readMask arr e AND NOT (toInt32 (bitflag r)));
                               w3 = foldl (removeComponent_forEach E e) w2 (queries r)
                           in (case w_entityComponents w3 e of
                                 None \<Rightarrow> Throw TypeError w3
                               | Some cs \<Rightarrow>
                                   let w4 = w3\<lparr>w_entityComponents :=
                                                (w_entityComponents w3)(e \<mapsto> cs - {c})\<rparr>
                                   in if (case reset of None \<Rightarrow> True | Some b \<Rightarrow> b)
                                      then Ok (set_comp_section w4 c
                                                 (resetStoreFor (comp_section w4 c) e))
                                      else Ok w4)))))"

section \<open>Attribute assignment\<close>

text \<open>
  The data argument: a JavaScript value.  An object is the list of its own enumerable
  properties in the order of \<open>Object.keys\<close>, with distinct keys.  \<open>typeof\<close> is
  \<open>'object'\<close> for an object and for \<open>null\<close>, and \<open>'number'\<close> for a number.
\<close>

datatype jsval =
    JUndefined
  | JNull
  | JBool bool
  | JNum int
  | JStr string
  | JObj "(string \<times> jsval) list"

text \<open>The property key of an array index: its decimal numeral.\<close>

fun dec :: "nat \<Rightarrow> string" where
  "dec n = (if n < 10 then [''0123456789'' ! n]
            else dec (n div 10) @ [''0123456789'' ! (n mod 10)])"

declare dec.simps [simp del]

text \<open>
  \<open>componentSection[k]\<close>.  \<open>None\<close> is the TypeError of reading a property of
  \<open>undefined\<close>.  A number has no own properties; a typed array has its elements, under
  the numerals of their indices; a section has its fields.  Keys are taken not to name
  inherited properties (\<open>length\<close>, \<open>constructor\<close>, ...).
\<close>

fun getProp :: "csection \<Rightarrow> string \<Rightarrow> csection option" where
  "getProp Undefined k = None"
| "getProp (Num n) k = Some Undefined"
| "getProp (Column kd arr) k =
     Some (case find (\<lambda>i. dec i = k) [0..<length arr] of
             None \<Rightarrow> Undefined
           | Some i \<Rightarrow> Num (arr ! i))"
| "getProp (Section props) k =
     Some (case map_of props k of None \<Rightarrow> Undefined | Some s \<Rightarrow> s)"

text \<open>
  The object reached by \<open>componentSection[k]\<close> was changed in place: the field \<open>k\<close> of a
  section now holds the changed object.  Numbers and \<open>undefined\<close> are values, not
  objects, and nothing is written back for them.
\<close>

fun putChild :: "csection \<Rightarrow> string \<Rightarrow> csection \<Rightarrow> csection" where
  "putChild (Section props) k sub =
     (if k \<in> fst ` set props then Section (AList.update k sub props) else Section props)"
| "putChild sec k sub = sec"

text \<open>The conversion of an integral number to the element type of a typed array.\<close>

fun toElem :: "elemkind \<Rightarrow> int \<Rightarrow> int" where
  "toElem I8 n = sint (word_of_int n :: 8 word)"
| "toElem UI8 n = n mod 2 ^ 8"
| "toElem UI8C n = (if n < 0 then 0 else if 255 < n then 255 else n)"
| "toElem I16 n = sint (word_of_int n :: 16 word)"
| "toElem UI16 n = n mod 2 ^ 16"
| "toElem I32 n = sint (word_of_int n :: 32 word)"
| "toElem UI32 n = n mod 2 ^ 32"
| "toElem F64 n = n"

text \<open>
  \<open>(componentSection[k])[eid] = n\<close> (line 39).  Reading \<open>[k]\<close> of \<open>undefined\<close> throws,
  and so does setting \<open>[eid]\<close> on \<open>undefined\<close> or, in module (strict) code, on a number.
  On a typed array the element is written; on a section the property \<open>eid\<close> is set.
\<close>

definition assignLeaf :: "nat \<Rightarrow> csection \<Rightarrow> string \<Rightarrow> int \<Rightarrow> csection result" where
  "assignLeaf eid sec k n =
     (case getProp sec k of
        None \<Rightarrow> Throw TypeError sec
      | Some Undefined \<Rightarrow> Throw TypeError sec
      | Some (Num m) \<Rightarrow> Throw TypeError sec
      | Some (Column kd arr) \<Rightarrow> Ok (putChild sec k (Column kd (writeElem arr eid (toElem kd n))))
      | Some (Section props) \<Rightarrow>
          Ok (putChild sec k (Section (AList.update (dec eid) (Num n) props))))"

text \<open>
  \<open>recursivelySetComponentAttributes\<close>, with the \<open>forEach\<close> over \<open>Object.keys(data)\<close> as
  \<open>forEach_key\<close> and its callback, applied to the key \<open>k\<close> and to \<open>data[k]\<close>, as
  \<open>forEach_body\<close>.  \<open>Object.keys(null)\<close> throws a TypeError.  The result is the section
  after the writes made in place, also when a later key throws.
\<close>

fun recursivelySetComponentAttributes :: "nat \<Rightarrow> csection \<Rightarrow> jsval \<Rightarrow> csection result"
  and forEach_key :: "nat \<Rightarrow> csection \<Rightarrow> (string \<times> jsval) list \<Rightarrow> csection result"
  and forEach_body :: "nat \<Rightarrow> csection \<Rightarrow> string \<Rightarrow> jsval \<Rightarrow> csection result" where
  "recursivelySetComponentAttributes eid sec JUndefined = Ok sec"
| "recursivelySetComponentAttributes eid sec (JBool b) = Ok sec"
| "recursivelySetComponentAttributes eid sec (JNum n) = Ok sec"
| "recursivelySetComponentAttributes eid sec (JStr s) = Ok sec"
| "recursivelySetComponentAttributes eid sec JNull = Throw TypeError sec"
| "recursivelySetComponentAttributes eid sec (JObj kvs) = forEach_key eid sec kvs"
| "forEach_key eid sec [] = Ok sec"
| "forEach_key eid sec ((k, v) # kvs) =
     (case forEach_body eid sec k v of
        Throw e sec' \<Rightarrow> Throw e sec'
      | Ok sec' \<Rightarrow> forEach_key eid sec' kvs)"
| "forEach_body eid sec k (JNum n) = assignLeaf eid sec k n"
| "forEach_body eid sec k v =
     (case getProp sec k of
        None \<Rightarrow> Throw TypeError sec
      | Some sub \<Rightarrow>
          (case recursivelySetComponentAttributes eid sub v of
             Ok sub' \<Rightarrow> Ok (putChild sec k sub')
           | Throw e sub' \<Rightarrow> Throw e (putChild sec k sub')))"

text \<open>\<open>updateComponent\<close>: the component object is the section handed to the assignment.\<close>

definition updateComponent :: "world \<Rightarrow> comp \<Rightarrow> nat option \<Rightarrow> jsval \<Rightarrow> world result" where
  "updateComponent w c eid data =
     (case eid of
        None \<Rightarrow> Throw EntityUndefined w
      | Some e \<Rightarrow>
          if e \<notin> w_entitySparseSet w then Throw EntityNotFound w
          else
            (case hasComponent w c e of
               Inl err \<Rightarrow> Throw err w
             | Inr False \<Rightarrow> Ok w
             | Inr True \<Rightarrow>
                 (case recursivelySetComponentAttributes e (comp_section w c) data of
                    Ok s \<Rightarrow> Ok (set_comp_section w c s)
                  | Throw err s \<Rightarrow> Throw err (set_comp_section w c s))))"

text \<open>\<open>addAndPartiallyFillComponent\<close> and \<open>addAndFillComponent\<close>.\<close>

definition addAndPartiallyFillComponent ::
    "qengine \<Rightarrow> world \<Rightarrow> comp \<Rightarrow> nat option \<Rightarrow> jsval \<Rightarrow> bool option \<Rightarrow> world result" where
  "addAndPartiallyFillComponent E w c eid data reset =
     (case addComponent E w c eid (Some (case reset of None \<Rightarrow> False | Some b \<Rightarrow> b)) of
        Throw err w1 \<Rightarrow> Throw err w1
      | Ok w1 \<Rightarrow> updateComponent w1 c eid data)"

definition addAndFillComponent ::
    "qengine \<Rightarrow> world \<Rightarrow> comp \<Rightarrow> nat option \<Rightarrow> jsval \<Rightarrow> bool option \<Rightarrow> world result" where
  "addAndFillComponent E w c eid data reset =
     addAndPartiallyFillComponent E w c eid data
       (Some (case reset of None \<Rightarrow> False | Some b \<Rightarrow> b))"

section \<open>Worlds\<close>

text \<open>
  Modelled from the spec: the fresh world of World.js (absent): cursor 1 and one zero-filled
  generation, no component, query or entity.
\<close>

definition createWorld :: "nat \<Rightarrow> world" where
  "createWorld sz =
     \<lparr>w_bitflag = 1, w_size = sz, w_entityMasks = [replicate sz 0],
      w_componentMap = Map.empty, w_queries = [], w_entitySparseSet = {},
      w_entityComponents = Map.empty,
      h_query = (\<lambda>_. \<lparr>allComponents = [], toRemove = {}, entered = {}, exited = {},
                         results = {}\<rparr>),
      h_store = (\<lambda>_. Section [])\<rparr>"

text \<open>
  The allocator state \<open>n\<close> registrations after the state of \<open>w\<close>: the cursor, and the
  generations appended to those of \<open>w\<close>.
\<close>

definition alloc_state :: "world \<Rightarrow> nat \<Rightarrow> world \<Rightarrow> bool" where
  "alloc_state w n w' \<longleftrightarrow>
     w_bitflag w' = 2 ^ (n mod 31) \<and>
     w_size w' = w_size w \<and>
     w_entityMasks w' = w_entityMasks w @ replicate (n div 31) (replicate (w_size w) 0)"

section \<open>Well-formed worlds\<close>

text \<open>
  The bitflags the allocator hands out: the powers of two below \<open>2 ^ 31\<close>.
\<close>

definition usable_bit :: "nat \<Rightarrow> bool" where
  "usable_bit b \<longleftrightarrow> (\<exists>k<31. b = 2 ^ k)"

text \<open>
  The invariant of the worlds this module works on: there is a generation; the cursor and
  every registered bitflag are usable bits; every registration record points to an existing
  generation; and every entity of the existence set lies within the world's size, has its
  entry in \<open>world[$entityComponents]\<close>, and is an index of every generation.  The
  first three parts are established by \<open>createWorld\<close> and kept by every operation of
  this module; the last part is the contract of the entity allocator (Entity.js, absent),
  which sizes the masks with the world.
\<close>

definition wf_world :: "world \<Rightarrow> bool" where
  "wf_world w \<longleftrightarrow>
     w_entityMasks w \<noteq> [] \<and>
     usable_bit (w_bitflag w) \<and>
     (\<forall>c r. w_componentMap w c = Some r \<longrightarrow>
        0 \<le> generationId r \<and> nat (generationId r) < length (w_entityMasks w) \<and>
        usable_bit (bitflag r)) \<and>
     (\<forall>e \<in> w_entitySparseSet w.
        e < w_size w \<and> w_entityComponents w e \<noteq> None \<and>
        (\<forall>arr \<in> set (w_entityMasks w). e < length arr))"

section \<open>The specification's wording of query synchronization\<close>

text \<open>
  The query synchronization routine as section 4.3.1 of the specification words it: cancel
  the pending removal; recompute the match; if matching, cancel the exit signal and insert
  into the result set; otherwise cancel the enter signal and remove from the result set.
\<close>

definition syncQuery_spec :: "qengine \<Rightarrow> nat \<Rightarrow> world \<Rightarrow> nat \<Rightarrow> world" where
  "syncQuery_spec E eid w qa =
     (let q1 = (h_query w qa)\<lparr>toRemove := toRemove (h_query w qa) - {eid}\<rparr>;
          w1 = w\<lparr>h_query := (h_query w)(qa := q1)\<rparr>
      in if queryCheckEntity E w1 q1 eid
         then w\<lparr>h_query := (h_query w)(qa :=
                 queryAddEntity E (q1\<lparr>exited := exited q1 - {eid}\<rparr>) eid)\<rparr>
         else let q2 = q1\<lparr>entered := entered q1 - {eid}\<rparr>;
                  w2 = w\<lparr>h_query := (h_query w)(qa := q2)\<rparr>
              in w\<lparr>h_query := (h_query w)(qa := queryRemoveEntity E w2 q2 eid)\<rparr>)"

section \<open>Reading a store\<close>

text \<open>The values stored for one entity in the leaves of a store.\<close>

fun leaves_at :: "csection \<Rightarrow> nat \<Rightarrow> int list" where
  "leaves_at (Column kd arr) e = (if e < length arr then [arr ! e] else [])"
| "leaves_at (Section props) e = concat (map (\<lambda>(k, s). leaves_at s e) props)"
| "leaves_at Undefined e = []"
| "leaves_at (Num n) e = []"

text \<open>
  Reading \<open>C.f1.f2\<close> (\<open>undefined\<close> also where JavaScript would throw), and the
  element \<open>[e]\<close> of a typed array.
\<close>

fun readPath :: "csection \<Rightarrow> string list \<Rightarrow> csection" where
  "readPath s [] = s"
| "readPath s (k # ks) =
     (case getProp s k of None \<Rightarrow> Undefined | Some s' \<Rightarrow> readPath s' ks)"

fun elemAt :: "csection \<Rightarrow> nat \<Rightarrow> int option" where
  "elemAt (Column kd arr) e = (if e < length arr then Some (arr ! e) else None)"
| "elemAt s e = None"

section \<open>Concrete worlds\<close>

text \<open>
  Modelled from the spec: a query collaborator for the concrete worlds below.  By section 8
  of the specification an entity matches a query when it has every component of
  \<open>allComponents\<close>; adding to the result set records an entered signal, removing from it
  records an exited signal.
\<close>

definition specEngine :: qengine where
  "specEngine =
     \<lparr>queryCheckEntity = (\<lambda>w q e. list_all (\<lambda>c. hasComponent w c e = Inr True) (allComponents q)),
      queryAddEntity = (\<lambda>q e. q\<lparr>results := insert e (results q), entered := insert e (entered q)\<rparr>),
      queryRemoveEntity = (\<lambda>w q e. q\<lparr>results := results q - {e}, exited := insert e (exited q)\<rparr>)\<rparr>"

text \<open>
  Concrete worlds: \<open>world0\<close> is a fresh world of size 2 with the entities 0 and 1, the
  query at address 0, which requires component 0, and the store of component 0 (schema
  \<open>{pos: {x, y}, hp}\<close>, every value 7); \<open>world1\<close> is \<open>world0\<close> after component 0
  has been registered; \<open>world2\<close> is \<open>world1\<close> after component 0 has been added to
  entity 0.
\<close>

definition demoStore :: csection where
  "demoStore =
     Section [(''pos'', Section [(''x'', Column F64 [7, 7]), (''y'', Column F64 [7, 7])]),
              (''hp'', Column UI8 [7, 7])]"

definition world0 :: world where
  "world0 =
     (createWorld 2)
       \<lparr>w_queries := [0],
        w_entitySparseSet := {0, 1},
        w_entityComponents := [0 \<mapsto> {}, 1 \<mapsto> {}],
        h_query := (\<lambda>_. \<lparr>allComponents = [Some 0], toRemove = {}, entered = {}, exited = {},
                           results = {}\<rparr>),
        h_store := (\<lambda>_. demoStore)\<rparr>"

definition world1 :: world where
  "world1 = state_of (registerComponent world0 (Some 0))"

definition world2 :: world where
  "world2 = state_of (addComponent specEngine world1 (Some 0) (Some 0) None)"

text \<open>The data of the nested assignment example: \<open>{pos: {x: 1, y: 2}, hp: 10}\<close>.\<close>

definition demoData :: jsval where
  "demoData = JObj [(''pos'', JObj [(''x'', JNum 1), (''y'', JNum 2)]), (''hp'', JNum 10)]"

section \<open>Properties of the allocator and the registry\<close>

lemma incrementBitflag_pow:
  assumes "w_bitflag w = 2 ^ k" "k < 31"
  shows "incrementBitflag w =
           (if k = 30
            then w\<lparr>w_bitflag := 1, w_entityMasks := w_entityMasks w @ [replicate (w_size w) 0]\<rparr>
            else w\<lparr>w_bitflag := 2 ^ Suc k\<rparr>)"
proof (cases "k = 30")
  case True
  then show ?thesis using assms by (simp add: incrementBitflag_def Let_def)
next
  case False
  then have "Suc k < 31" using assms by simp
  then have "(2::nat) ^ Suc k < 2 ^ 31" by (rule power_strict_increasing) simp
  then show ?thesis using assms False by (simp add: incrementBitflag_def Let_def)
qed

lemma mod31_step:
  "(if n mod 31 = 30 then Suc n mod 31 = 0 \<and> Suc n div 31 = Suc (n div 31)
    else Suc n mod 31 = Suc (n mod 31) \<and> Suc n div 31 = n div 31)"
proof -
  have "Suc n = 31 * (n div 31) + Suc (n mod 31)" by simp
  show ?thesis
  proof (cases "n mod 31 = 30")
    case True
    then have "Suc n = 31 * Suc (n div 31)" using \<open>Suc n = _\<close> by simp
    then show ?thesis using True by (metis div_mult_self1_is_m mod_mult_self1_is_0 zero_less_numeral)
  next
    case False
    then have "Suc (n mod 31) < 31" by (simp add: less_Suc_eq_le le_neq_implies_less Suc_lessI)
    then show ?thesis using False by (simp add: mod_Suc div_Suc)
  qed
qed

lemma registerComponents_append:
  "registerComponents w (xs @ ys) =
     (case registerComponents w xs of Throw e w' \<Rightarrow> Throw e w' | Ok w' \<Rightarrow> registerComponents w' ys)"
proof (induction xs arbitrary: w)
  case Nil
  show ?case by simp
next
  case (Cons x xs)
  show ?case by (cases "registerComponent w x") (simp_all add: Cons.IH)
qed

text \<open>What one registration does to the allocator state and the registry.\<close>

lemma registerComponent_Some:
  "registerComponent w (Some k) =
     Ok (incrementBitflag (w\<lparr>w_componentMap := (w_componentMap w)(Some k \<mapsto>
          \<lparr>generationId = int (length (w_entityMasks w)) - 1,
           bitflag = w_bitflag w,
           store = Some k,
           queries = foldl (\<lambda>acc q. if Some k \<in> set (allComponents (h_query w q))
                                      then set_add q acc else acc) [] (w_queries w),
           notQueries = [],
           changedQueries = []\<rparr>)\<rparr>))"
  by (simp add: registerComponent_def Let_def)

lemma incrementBitflag_frame:
  "w_componentMap (incrementBitflag w) = w_componentMap w"
  "w_size (incrementBitflag w) = w_size w"
  "w_queries (incrementBitflag w) = w_queries w"
  "w_entitySparseSet (incrementBitflag w) = w_entitySparseSet w"
  "w_entityComponents (incrementBitflag w) = w_entityComponents w"
  "h_query (incrementBitflag w) = h_query w"
  "h_store (incrementBitflag w) = h_store w"
  by (simp_all add: incrementBitflag_def Let_def)

lemma registerComponent_alloc:
  assumes st: "alloc_state w n w1" and len: "length (w_entityMasks w) = 1"
  shows "\<exists>w2 r. registerComponent w1 (Some k) = Ok w2 \<and> alloc_state w (Suc n) w2 \<and>
           w_componentMap w2 = (w_componentMap w1)(Some k \<mapsto> r) \<and>
           generationId r = int (n div 31) \<and> bitflag r = 2 ^ (n mod 31)"
proof -
  let ?r = "\<lparr>generationId = int (length (w_entityMasks w1)) - 1,
           bitflag = w_bitflag w1,
           store = Some k,
           queries = foldl (\<lambda>acc q. if Some k \<in> set (allComponents (h_query w1 q))
                                      then set_add q acc else acc) [] (w_queries w1),
           notQueries = [],
           changedQueries = []\<rparr>"
  let ?w1 = "w1\<lparr>w_componentMap := (w_componentMap w1)(Some k \<mapsto> ?r)\<rparr>"
  have b: "w_bitflag ?w1 = 2 ^ (n mod 31)" and lt: "n mod 31 < 31"
    using st by (simp_all add: alloc_state_def)
  have inc: "incrementBitflag ?w1 =
           (if n mod 31 = 30
            then ?w1\<lparr>w_bitflag := 1, w_entityMasks := w_entityMasks ?w1 @ [replicate (w_size ?w1) 0]\<rparr>
            else ?w1\<lparr>w_bitflag := 2 ^ Suc (n mod 31)\<rparr>)"
    by (rule incrementBitflag_pow [OF b lt])
  have reg: "registerComponent w1 (Some k) = Ok (incrementBitflag ?w1)"
    by (rule registerComponent_Some)
  have g: "generationId ?r = int (n div 31)"
    using st len by (simp add: alloc_state_def)
  have bf: "bitflag ?r = 2 ^ (n mod 31)"
    using st by (simp add: alloc_state_def)
  have cm: "w_componentMap (incrementBitflag ?w1) = (w_componentMap w1)(Some k \<mapsto> ?r)"
    by (simp add: incrementBitflag_frame)
  have st': "alloc_state w (Suc n) (incrementBitflag ?w1)"
  proof (cases "n mod 31 = 30")
    case True
    with mod31_step [of n] have "Suc n mod 31 = 0" "Suc n div 31 = Suc (n div 31)" by simp_all
    then show ?thesis using st True unfolding inc
      by (simp add: alloc_state_def replicate_append_same)
  next
    case False
    with mod31_step [of n] have "Suc n mod 31 = Suc (n mod 31)" "Suc n div 31 = n div 31" by simp_all
    then show ?thesis using st False unfolding inc
      by (simp add: alloc_state_def)
  qed
  show ?thesis using reg st' cm g bf by blast
qed


lemma registerComponents_alloc:
  assumes len: "length (w_entityMasks w) = 1" and b: "w_bitflag w = 1"
    and nn: "None \<notin> set cs"
  shows "\<exists>w'. registerComponents w cs = Ok w' \<and> alloc_state w (length cs) w' \<and>
           (\<forall>i<length cs. cs ! i \<notin> set (drop (Suc i) cs) \<longrightarrow>
              (\<exists>r. w_componentMap w' (cs ! i) = Some r \<and>
                   generationId r = int (i div 31) \<and> bitflag r = 2 ^ (i mod 31)))"
  using nn
proof (induction cs rule: rev_induct)
  case Nil
  show ?case using b by (simp add: alloc_state_def)
next
  case (snoc c cs)
  from snoc.prems have nn': "None \<notin> set cs" and cn: "None \<noteq> c" by simp_all
  obtain k where c: "c = Some k" using cn by (cases c) simp_all
  from snoc.IH [OF nn'] obtain w1 where
    r1: "registerComponents w cs = Ok w1" and st1: "alloc_state w (length cs) w1" and
    rec1: "\<forall>i<length cs. cs ! i \<notin> set (drop (Suc i) cs) \<longrightarrow>
              (\<exists>r. w_componentMap w1 (cs ! i) = Some r \<and>
                   generationId r = int (i div 31) \<and> bitflag r = 2 ^ (i mod 31))"
    by blast
  from registerComponent_alloc [OF st1 len, of k] obtain w2 r where
    r2: "registerComponent w1 (Some k) = Ok w2" and st2: "alloc_state w (Suc (length cs)) w2" and
    cm2: "w_componentMap w2 = (w_componentMap w1)(Some k \<mapsto> r)" and
    g: "generationId r = int (length cs div 31)" and bf: "bitflag r = 2 ^ (length cs mod 31)"
    by blast
  have run: "registerComponents w (cs @ [c]) = Ok w2"
    by (simp add: registerComponents_append r1 c r2)
  have recs: "\<exists>r'. w_componentMap w2 ((cs @ [c]) ! i) = Some r' \<and>
                   generationId r' = int (i div 31) \<and> bitflag r' = 2 ^ (i mod 31)"
    if i: "i < length (cs @ [c])" and fresh: "(cs @ [c]) ! i \<notin> set (drop (Suc i) (cs @ [c]))"
    for i
  proof (cases "i < length cs")
    case True
    then have nth: "(cs @ [c]) ! i = cs ! i" by (simp add: nth_append)
    from True fresh have "cs ! i \<notin> set (drop (Suc i) cs)" and ne: "cs ! i \<noteq> c"
      by (auto simp: nth_append)
    with rec1 True obtain r' where "w_componentMap w1 (cs ! i) = Some r'"
      "generationId r' = int (i div 31)" "bitflag r' = 2 ^ (i mod 31)" by blast
    then show ?thesis using ne unfolding nth by (simp add: cm2 c)
  next
    case False
    with i have "i = length cs" by simp
    then show ?thesis using g bf by (simp add: cm2 c)
  qed
  show ?case using run st2 recs by auto
qed

text \<open>
  C2: from a world with cursor 1 and one generation, registering the non-null components
  \<open>cs\<close> in order succeeds; the \<open>n\<close>-th registration (if the component is not registered
  again later) holds generation \<open>(n - 1) div 31\<close> and bitflag \<open>2 ^ ((n - 1) mod 31)\<close>, below
  \<open>2 ^ 31\<close>; afterwards the cursor is \<open>2 ^ (length cs mod 31)\<close> and one zero-filled
  generation of the world's size has been appended for every 31 registrations.
\<close>

theorem bitflag_generation_allocation:
  assumes "w_bitflag w = 1" and "length (w_entityMasks w) = 1" and "None \<notin> set cs"
  shows "\<exists>w'. registerComponents w cs = Ok w' \<and>
           w_bitflag w' = 2 ^ (length cs mod 31) \<and>
           w_entityMasks w' =
             w_entityMasks w @ replicate (length cs div 31) (replicate (w_size w) 0) \<and>
           (\<forall>n. 1 \<le> n \<and> n \<le> length cs \<and> cs ! (n - 1) \<notin> set (drop n cs) \<longrightarrow>
              (\<exists>r. w_componentMap w' (cs ! (n - 1)) = Some r \<and>
                   generationId r = int ((n - 1) div 31) \<and>
                   bitflag r = 2 ^ ((n - 1) mod 31) \<and>
                   bitflag r < 2 ^ 31))"
proof -
  from registerComponents_alloc [OF assms(2) assms(1) assms(3)] obtain w' where
    run: "registerComponents w cs = Ok w'" and st: "alloc_state w (length cs) w'" and
    recs: "\<forall>i<length cs. cs ! i \<notin> set (drop (Suc i) cs) \<longrightarrow>
              (\<exists>r. w_componentMap w' (cs ! i) = Some r \<and>
                   generationId r = int (i div 31) \<and> bitflag r = 2 ^ (i mod 31))"
    by blast
  have "\<exists>r. w_componentMap w' (cs ! (n - 1)) = Some r \<and>
                   generationId r = int ((n - 1) div 31) \<and>
                   bitflag r = 2 ^ ((n - 1) mod 31) \<and> bitflag r < 2 ^ 31"
    if n: "1 \<le> n" "n \<le> length cs" "cs ! (n - 1) \<notin> set (drop n cs)" for n
  proof -
    from n have i: "n - 1 < length cs" and s: "Suc (n - 1) = n" by simp_all
    from recs i n(3) s obtain r where r: "w_componentMap w' (cs ! (n - 1)) = Some r"
      "generationId r = int ((n - 1) div 31)" "bitflag r = 2 ^ ((n - 1) mod 31)" by auto
    have "(2::nat) ^ ((n - 1) mod 31) < 2 ^ 31"
      by (rule power_strict_increasing) simp_all
    with r show ?thesis by auto
  qed
  then show ?thesis using run st by (auto simp: alloc_state_def)
qed

theorem bitflag_generation_allocation_witness:
  "\<exists>w'. registerComponents (createWorld 2) (map Some [0..<32]) = Ok w' \<and>
     w_bitflag w' = 2 \<and>
     w_entityMasks w' = [[0, 0], [0, 0]] \<and>
     (\<exists>r. w_componentMap w' (Some 31) = Some r \<and> generationId r = 1 \<and> bitflag r = 1)"
proof -
  have h: "w_bitflag (createWorld 2) = 1" "length (w_entityMasks (createWorld 2)) = 1"
    "None \<notin> set (map Some [0..<32::nat])"
    by (simp_all add: createWorld_def)
  from bitflag_generation_allocation [OF h] obtain w' where
    run: "registerComponents (createWorld 2) (map Some [0..<32]) = Ok w'" and
    b: "w_bitflag w' = 2 ^ (length (map Some [0..<32::nat]) mod 31)" and
    m: "w_entityMasks w' = w_entityMasks (createWorld 2) @
          replicate (length (map Some [0..<32::nat]) div 31) (replicate (w_size (createWorld 2)) 0)" and
    r: "\<forall>n. 1 \<le> n \<and> n \<le> length (map Some [0..<32::nat]) \<and>
            map Some [0..<32::nat] ! (n - 1) \<notin> set (drop n (map Some [0..<32::nat])) \<longrightarrow>
              (\<exists>r. w_componentMap w' (map Some [0..<32::nat] ! (n - 1)) = Some r \<and>
                   generationId r = int ((n - 1) div 31) \<and>
                   bitflag r = 2 ^ ((n - 1) mod 31) \<and>
                   bitflag r < 2 ^ 31)"
    by blast
  from r [rule_format, of 32] have
    "\<exists>r. w_componentMap w' (Some 31) = Some r \<and> generationId r = 1 \<and> bitflag r = 1"
    by auto
  moreover have "w_bitflag w' = 2" using b by simp
  moreover have "w_entityMasks w' = [[0, 0], [0, 0]]"
    using m by (simp add: createWorld_def numeral_2_eq_2)
  ultimately show ?thesis using run by blast
qed

section \<open>Bit tests\<close>

lemma toInt32_pow: "toInt32 (2 ^ k) = 2 ^ k"
  by (simp add: toInt32_def)

lemma sint_pow: 
  assumes "k < 31" shows "sint (2 ^ k :: 32 word) = 2 ^ k"
proof -
  have lt: "(2::int) ^ k < 2 ^ 31" using assms by (intro power_strict_increasing) simp_all
  have "(2 ^ k :: 32 word) = word_of_int (2 ^ k)" by simp
  then have "sint (2 ^ k :: 32 word) = signed_take_bit 31 ((2::int) ^ k)"
    by (simp only: sint_sbintrunc') simp
  also have "\<dots> = 2 ^ k"
  proof (rule signed_take_bit_int_eq_self)
    have "- (2 ^ 31) \<le> (0::int)" by simp
    also have "(0::int) \<le> 2 ^ k" by simp
    finally show "- (2 ^ 31) \<le> (2::int) ^ k" .
    show "(2::int) ^ k < 2 ^ 31" by (rule lt)
  qed
  finally show ?thesis .
qed

lemma sint_inj_val: 
  assumes "sint (x :: 32 word) = 2 ^ k" shows "x = 2 ^ k"
proof -
  have "x = word_of_int (sint x)" by simp
  also have "\<dots> = word_of_int (2 ^ k)" by (simp only: assms)
  finally show ?thesis by simp
qed

lemma pow_ne0: "k < 31 \<Longrightarrow> (2 ^ k :: 32 word) \<noteq> 0"
  by simp

lemma test_bit: 
  assumes "k < 31"
  shows "(sint (m AND toInt32 (2 ^ k)) = int (2 ^ k)) = (m AND toInt32 (2 ^ k) = toInt32 (2 ^ k))"
proof
  assume "sint (m AND toInt32 (2 ^ k)) = int (2 ^ k)"
  then have "sint (m AND toInt32 (2 ^ k)) = 2 ^ k" by simp
  then have "m AND toInt32 (2 ^ k) = 2 ^ k" by (rule sint_inj_val)
  then show "m AND toInt32 (2 ^ k) = toInt32 (2 ^ k)" by (simp add: toInt32_pow)
next
  assume "m AND toInt32 (2 ^ k) = toInt32 (2 ^ k)"
  then show "sint (m AND toInt32 (2 ^ k)) = int (2 ^ k)"
    using sint_pow [OF assms] by (simp add: toInt32_pow)
qed

section \<open>Frame properties and the effective mutations\<close>

lemma upd_query_frame [simp]:
  "w_bitflag (upd_query qa f w) = w_bitflag w"
  "w_size (upd_query qa f w) = w_size w"
  "w_entityMasks (upd_query qa f w) = w_entityMasks w"
  "w_componentMap (upd_query qa f w) = w_componentMap w"
  "w_queries (upd_query qa f w) = w_queries w"
  "w_entitySparseSet (upd_query qa f w) = w_entitySparseSet w"
  "w_entityComponents (upd_query qa f w) = w_entityComponents w"
  "h_store (upd_query qa f w) = h_store w"
  by (simp_all add: upd_query_def)

lemma addComponent_forEach_frame [simp]:
  "w_bitflag (addComponent_forEach E e w qa) = w_bitflag w"
  "w_size (addComponent_forEach E e w qa) = w_size w"
  "w_entityMasks (addComponent_forEach E e w qa) = w_entityMasks w"
  "w_componentMap (addComponent_forEach E e w qa) = w_componentMap w"
  "w_queries (addComponent_forEach E e w qa) = w_queries w"
  "w_entitySparseSet (addComponent_forEach E e w qa) = w_entitySparseSet w"
  "w_entityComponents (addComponent_forEach E e w qa) = w_entityComponents w"
  "h_store (addComponent_forEach E e w qa) = h_store w"
  by (simp_all add: addComponent_forEach_def Let_def)

lemma removeComponent_forEach_eq:
  "removeComponent_forEach = addComponent_forEach"
  by (intro ext) (simp add: removeComponent_forEach_def addComponent_forEach_def)

lemma foldl_forEach_frame [simp]:
  "w_bitflag (foldl (addComponent_forEach E e) w qs) = w_bitflag w"
  "w_size (foldl (addComponent_forEach E e) w qs) = w_size w"
  "w_entityMasks (foldl (addComponent_forEach E e) w qs) = w_entityMasks w"
  "w_componentMap (foldl (addComponent_forEach E e) w qs) = w_componentMap w"
  "w_queries (foldl (addComponent_forEach E e) w qs) = w_queries w"
  "w_entitySparseSet (foldl (addComponent_forEach E e) w qs) = w_entitySparseSet w"
  "w_entityComponents (foldl (addComponent_forEach E e) w qs) = w_entityComponents w"
  "h_store (foldl (addComponent_forEach E e) w qs) = h_store w"
  by (induction qs arbitrary: w; simp)+

lemma writeMask_frame [simp]:
  "w_bitflag (writeMask w g e v) = w_bitflag w"
  "w_size (writeMask w g e v) = w_size w"
  "w_componentMap (writeMask w g e v) = w_componentMap w"
  "w_queries (writeMask w g e v) = w_queries w"
  "w_entitySparseSet (writeMask w g e v) = w_entitySparseSet w"
  "w_entityComponents (writeMask w g e v) = w_entityComponents w"
  "h_store (writeMask w g e v) = h_store w"
  "h_query (writeMask w g e v) = h_query w"
  "w_entityMasks (writeMask w g e v) =
     (w_entityMasks w)[nat g := writeElem (w_entityMasks w ! nat g) e v]"
  by (simp_all add: writeMask_def)

lemma set_comp_section_frame [simp]:
  "w_bitflag (set_comp_section w c s) = w_bitflag w"
  "w_size (set_comp_section w c s) = w_size w"
  "w_entityMasks (set_comp_section w c s) = w_entityMasks w"
  "w_componentMap (set_comp_section w c s) = w_componentMap w"
  "w_queries (set_comp_section w c s) = w_queries w"
  "w_entitySparseSet (set_comp_section w c s) = w_entitySparseSet w"
  "w_entityComponents (set_comp_section w c s) = w_entityComponents w"
  "h_query (set_comp_section w c s) = h_query w"
  by (cases c; simp add: set_comp_section_def)+

text \<open>The state after an effective add: the component is registered and absent.\<close>

lemma addComponent_run:
  assumes ex: "e \<in> w_entitySparseSet w"
    and cm: "w_componentMap w c = Some r"
    and gen: "generation w (generationId r) = Some arr"
    and hc: "hasComponent w c e = Inr False"
    and ec: "w_entityComponents w e = Some cs"
  shows "\<exists>w'. addComponent E w c (Some e) reset = Ok w' \<and>
           w_entityMasks w' = (w_entityMasks w)[nat (generationId r) :=
               writeElem arr e (readMask arr e OR toInt32 (bitflag r))] \<and>
           w_componentMap w' = w_componentMap w \<and>
           w_bitflag w' = w_bitflag w \<and>
           w_size w' = w_size w \<and>
           w_queries w' = w_queries w \<and>
           w_entitySparseSet w' = w_entitySparseSet w \<and>
           w_entityComponents w' = (w_entityComponents w)(e \<mapsto> insert c cs) \<and>
           h_query w' = h_query (foldl (addComponent_forEach E e)
               (writeMask w (generationId r) e (readMask arr e OR toInt32 (bitflag r)))
               (queries r)) \<and>
           h_store w' = (if reset = Some True
                         then h_store (set_comp_section w c (resetStoreFor (comp_section w c) e))
                         else h_store w)"
proof -
  have arr: "arr = w_entityMasks w ! nat (generationId r)"
    using gen by (simp add: generation_def split: if_splits)
  show ?thesis
  proof (cases "reset = Some True")
    case True
    then show ?thesis using ex cm gen hc ec arr
      by (cases c) (simp_all add: addComponent_def Let_def set_comp_section_def comp_section_def)
  next
    case False
    then have "(case reset of None \<Rightarrow> False | Some b \<Rightarrow> b) = False"
      by (cases reset) auto
    then show ?thesis using ex cm gen hc ec arr False
      by (simp add: addComponent_def Let_def)
  qed
qed

lemma removeComponent_run:
  assumes ex: "e \<in> w_entitySparseSet w"
    and cm: "w_componentMap w c = Some r"
    and gen: "generation w (generationId r) = Some arr"
    and hc: "hasComponent w c e = Inr True"
    and ec: "w_entityComponents w e = Some cs"
  shows "\<exists>w'. removeComponent E w c (Some e) reset = Ok w' \<and>
           w_entityMasks w' = (w_entityMasks w)[nat (generationId r) :=
               writeElem arr e (readMask arr e AND NOT (toInt32 (bitflag r)))] \<and>
           w_componentMap w' = w_componentMap w \<and>
           w_bitflag w' = w_bitflag w \<and>
           w_size w' = w_size w \<and>
           w_queries w' = w_queries w \<and>
           w_entitySparseSet w' = w_entitySparseSet w \<and>
           w_entityComponents w' = (w_entityComponents w)(e \<mapsto> cs - {c}) \<and>
           h_query w' = h_query (foldl (removeComponent_forEach E e)
               (writeMask w (generationId r) e (readMask arr e AND NOT (toInt32 (bitflag r))))
               (queries r)) \<and>
           h_store w' = (if reset = Some False
                         then h_store w
                         else h_store (set_comp_section w c (resetStoreFor (comp_section w c) e)))"
proof -
  have arr: "arr = w_entityMasks w ! nat (generationId r)"
    using gen by (simp add: generation_def split: if_splits)
  show ?thesis
  proof (cases "reset = Some False")
    case True
    then show ?thesis using ex cm gen hc ec arr
      by (simp add: removeComponent_def Let_def removeComponent_forEach_eq)
  next
    case False
    then have "(case reset of None \<Rightarrow> True | Some b \<Rightarrow> b) = True"
      by (cases reset) auto
    then show ?thesis using ex cm gen hc ec arr False
      by (cases c) (simp_all add: removeComponent_def Let_def removeComponent_forEach_eq
          set_comp_section_def comp_section_def)
  qed
qed

section \<open>Registration keeps worlds well-formed\<close>

lemma or_absorb_present: "(m :: 32 word) AND b = b \<Longrightarrow> m OR b = m"
  by (metis word_ao_absorbs(4) or.commute and.commute)

lemma single_bit_absent:
  assumes "(m :: 32 word) AND 2 ^ k \<noteq> 2 ^ k"
  shows "m AND NOT (2 ^ k) = m"
proof (rule bit_word_eqI)
  fix n assume "n < LENGTH(32)"
  have nb: "\<not> bit m k"
  proof
    assume b: "bit m k"
    have "m AND 2 ^ k = 2 ^ k"
      by (rule bit_word_eqI) (use b in \<open>auto simp: bit_simps\<close>)
    with assms show False by simp
  qed
  show "bit (m AND NOT (2 ^ k)) n = bit m n"
    using nb \<open>n < LENGTH(32)\<close> by (auto simp: bit_simps)
qed

lemma or_and: "((m :: 32 word) OR b) AND b = b"
  by simp

lemma andnot_and: "((m :: 32 word) AND NOT b) AND b = 0"
  by (simp add: and.assoc)

lemma usable_bitE:
  assumes "usable_bit b" obtains k where "k < 31" "b = 2 ^ k"
  using assms by (auto simp: usable_bit_def)

lemma hasComponent_wf:
  assumes wf: "wf_world w" and cm: "w_componentMap w c = Some r"
  shows "generation w (generationId r) = Some (w_entityMasks w ! nat (generationId r))"
    and "hasComponent w c e =
           Inr (readMask (w_entityMasks w ! nat (generationId r)) e AND toInt32 (bitflag r)
                = toInt32 (bitflag r))"
proof -
  from wf cm have g: "0 \<le> generationId r" "nat (generationId r) < length (w_entityMasks w)"
    and ub: "usable_bit (bitflag r)"
    by (auto simp: wf_world_def)
  show gen: "generation w (generationId r) = Some (w_entityMasks w ! nat (generationId r))"
    using g by (simp add: generation_def)
  from ub obtain k where k: "k < 31" "bitflag r = 2 ^ k" by (rule usable_bitE)
  show "hasComponent w c e =
           Inr (readMask (w_entityMasks w ! nat (generationId r)) e AND toInt32 (bitflag r)
                = toInt32 (bitflag r))"
    using test_bit [OF k(1)] by (simp add: hasComponent_def cm gen k(2))
qed

lemma wf_world_fields:
  assumes "w_entityMasks w' = w_entityMasks w" "w_bitflag w' = w_bitflag w"
    "w_componentMap w' = w_componentMap w" "w_entitySparseSet w' = w_entitySparseSet w"
    "w_size w' = w_size w" "w_entityComponents w' = w_entityComponents w"
  shows "wf_world w' = wf_world w"
  by (simp add: wf_world_def assms)

lemma usable_bit_pow: "k < 31 \<Longrightarrow> usable_bit (2 ^ k)"
  unfolding usable_bit_def by blast

lemma usable_bit_double:
  assumes "k < 31" 
  shows "usable_bit (if k = 30 then 1 else 2 ^ Suc k)"
proof (cases "k = 30")
  case True
  have "usable_bit (2 ^ 0)" by (rule usable_bit_pow) simp
  then show ?thesis using True by simp
next
  case False
  then have "Suc k < 31" using assms by simp
  then have "usable_bit (2 ^ Suc k)" by (rule usable_bit_pow)
  then show ?thesis using False by simp
qed

lemma wf_registerComponent:
  assumes wf: "wf_world w" and reg: "registerComponent w c = Ok w'"
  shows "wf_world w'"
proof -
  from reg obtain k where c: "c = Some k"
    by (cases c) (simp_all add: registerComponent_def)
  let ?r = "\<lparr>generationId = int (length (w_entityMasks w)) - 1,
           bitflag = w_bitflag w,
           store = Some k,
           queries = foldl (\<lambda>acc q. if Some k \<in> set (allComponents (h_query w q))
                                      then set_add q acc else acc) [] (w_queries w),
           notQueries = [],
           changedQueries = []\<rparr>"
  let ?w1 = "w\<lparr>w_componentMap := (w_componentMap w)(Some k \<mapsto> ?r)\<rparr>"
  from wf obtain j where j: "j < 31" "w_bitflag w = 2 ^ j"
    by (auto simp: wf_world_def elim: usable_bitE)
  have w': "w' = incrementBitflag ?w1"
    using reg unfolding c registerComponent_Some by simp
  have inc: "incrementBitflag ?w1 =
           (if j = 30
            then ?w1\<lparr>w_bitflag := 1, w_entityMasks := w_entityMasks ?w1 @ [replicate (w_size ?w1) 0]\<rparr>
            else ?w1\<lparr>w_bitflag := 2 ^ Suc j\<rparr>)"
    by (rule incrementBitflag_pow) (use j in simp_all)
  have ne: "w_entityMasks w \<noteq> []" using wf by (simp add: wf_world_def)
  have ubw: "usable_bit (w_bitflag w)" using wf by (simp add: wf_world_def)
  have ub': "usable_bit (w_bitflag w')"
    using usable_bit_double [OF j(1)] unfolding w' inc by (cases "j = 30") simp_all
  have len: "length (w_entityMasks w) \<le> length (w_entityMasks w')"
    unfolding w' inc by simp
  have masks: "set (w_entityMasks w') \<subseteq> insert (replicate (w_size w) 0) (set (w_entityMasks w))"
    unfolding w' inc by auto
  have cm': "w_componentMap w' = (w_componentMap w)(Some k \<mapsto> ?r)"
    unfolding w' by (simp add: incrementBitflag_frame)
  have fr: "w_entitySparseSet w' = w_entitySparseSet w" "w_size w' = w_size w"
    "w_entityComponents w' = w_entityComponents w"
    unfolding w' by (simp_all add: incrementBitflag_frame)
  have recs: "0 \<le> generationId r' \<and> nat (generationId r') < length (w_entityMasks w') \<and>
        usable_bit (bitflag r')" if "w_componentMap w' c' = Some r'" for c' r'
  proof (cases "c' = Some k")
    case True
    with that cm' have "r' = ?r" by simp
    then show ?thesis using ne ubw len by (cases "w_entityMasks w") auto
  next
    case False
    with that cm' have "w_componentMap w c' = Some r'" by simp
    with wf have "0 \<le> generationId r' \<and> nat (generationId r') < length (w_entityMasks w) \<and>
        usable_bit (bitflag r')" unfolding wf_world_def by blast
    then show ?thesis using len by auto
  qed
  have ents: "e < w_size w' \<and> w_entityComponents w' e \<noteq> None \<and>
        (\<forall>arr \<in> set (w_entityMasks w'). e < length arr)" if "e \<in> w_entitySparseSet w'" for e
  proof -
    from that fr have "e \<in> w_entitySparseSet w" by simp
    with wf have "e < w_size w" "w_entityComponents w e \<noteq> None"
      "\<forall>arr \<in> set (w_entityMasks w). e < length arr" unfolding wf_world_def by blast+
    then show ?thesis using fr masks by auto
  qed
  have "w_entityMasks w' \<noteq> []" using ne len by auto
  then show ?thesis using ub' recs ents unfolding wf_world_def by blast
qed

lemma wf_registerComponent_any: "wf_world w \<Longrightarrow> wf_world (state_of (registerComponent w c))"
proof (cases "registerComponent w c")
  case (Ok w')
  moreover assume "wf_world w"
  ultimately show ?thesis using wf_registerComponent by simp
next
  case (Throw e w')
  moreover assume "wf_world w"
  ultimately show ?thesis by (cases c) (simp_all add: registerComponent_def Let_def)
qed

section \<open>Add and remove on registered components\<close>

lemma wf_mask_update:
  assumes wf: "wf_world w"
    and m: "w_entityMasks w' = (w_entityMasks w)[g := arr']"
    and g: "g < length (w_entityMasks w)"
    and l: "length arr' = length (w_entityMasks w ! g)"
    and fr: "w_bitflag w' = w_bitflag w" "w_componentMap w' = w_componentMap w"
      "w_entitySparseSet w' = w_entitySparseSet w" "w_size w' = w_size w"
    and ec: "w_entityComponents w' = (w_entityComponents w)(e \<mapsto> s)"
  shows "wf_world w'"
proof -
  have in_range: "e' < length arr" if e': "e' \<in> w_entitySparseSet w" and a: "arr \<in> set (w_entityMasks w')"
    for e' arr
  proof -
    from wf e' have all: "\<forall>arr \<in> set (w_entityMasks w). e' < length arr"
      unfolding wf_world_def by blast
    from a m have "arr = arr' \<or> arr \<in> set (w_entityMasks w)"
      using set_update_subset_insert [of "w_entityMasks w" g arr'] by auto
    moreover have "w_entityMasks w ! g \<in> set (w_entityMasks w)" using g by simp
    ultimately show ?thesis using all l by auto
  qed
  have "w_entityMasks w' \<noteq> []" using wf m unfolding wf_world_def by simp
  moreover have "usable_bit (w_bitflag w')" using wf fr unfolding wf_world_def by simp
  moreover have "\<forall>c r. w_componentMap w' c = Some r \<longrightarrow>
        0 \<le> generationId r \<and> nat (generationId r) < length (w_entityMasks w') \<and>
        usable_bit (bitflag r)"
    using wf fr m unfolding wf_world_def by simp
  moreover have "\<forall>e' \<in> w_entitySparseSet w'.
        e' < w_size w' \<and> w_entityComponents w' e' \<noteq> None \<and>
        (\<forall>arr \<in> set (w_entityMasks w'). e' < length arr)"
    using wf fr ec in_range unfolding wf_world_def by simp
  ultimately show ?thesis unfolding wf_world_def by blast
qed

lemma wf_entity:
  assumes "wf_world w" "e \<in> w_entitySparseSet w" "w_componentMap w c = Some r"
  shows "e < length (w_entityMasks w ! nat (generationId r))"
    and "\<exists>cs. w_entityComponents w e = Some cs"
    and "nat (generationId r) < length (w_entityMasks w)"
proof -
  from assms show g: "nat (generationId r) < length (w_entityMasks w)"
    unfolding wf_world_def by blast
  then have "w_entityMasks w ! nat (generationId r) \<in> set (w_entityMasks w)" by simp
  with assms show "e < length (w_entityMasks w ! nat (generationId r))"
    unfolding wf_world_def by blast
  from assms show "\<exists>cs. w_entityComponents w e = Some cs"
    unfolding wf_world_def by blast
qed

text \<open>Adding a registered component to an existing entity of a well-formed world.\<close>

lemma addComponent_registered:
  fixes E :: qengine and reset :: "bool option"
  assumes wf: "wf_world w" and ex: "e \<in> w_entitySparseSet w"
    and cm: "w_componentMap w c = Some r"
  defines "w' \<equiv> state_of (addComponent E w c (Some e) reset)"
  shows "w_entityMasks w' = (w_entityMasks w)[nat (generationId r) :=
            (w_entityMasks w ! nat (generationId r))[e :=
               w_entityMasks w ! nat (generationId r) ! e OR toInt32 (bitflag r)]]"
    and "hasComponent w' c e = Inr True"
    and "wf_world w'"
    and "w_componentMap w' = w_componentMap w"
    and "w_entitySparseSet w' = w_entitySparseSet w"
    and "\<exists>w''. addComponent E w c (Some e) reset = Ok w''"
proof -
  let ?g = "nat (generationId r)"
  let ?arr = "w_entityMasks w ! ?g"
  let ?b = "toInt32 (bitflag r)"
  note ent = wf_entity [OF wf ex cm]
  note hw = hasComponent_wf [OF wf cm]
  have rd: "readMask ?arr e = ?arr ! e" using ent(1) by (simp add: readMask_def)
  have goal: "w_entityMasks w' = (w_entityMasks w)[?g := ?arr[e := ?arr ! e OR ?b]] \<and>
     hasComponent w' c e = Inr True \<and> wf_world w' \<and> w_componentMap w' = w_componentMap w \<and>
     w_entitySparseSet w' = w_entitySparseSet w \<and> (\<exists>w''. addComponent E w c (Some e) reset = Ok w'')"
  proof (cases "?arr ! e AND ?b = ?b")
    case True
    then have hc: "hasComponent w c e = Inr True" using hw(2) [of e] rd by simp
    have run: "addComponent E w c (Some e) reset = Ok w"
      using ex cm hc by (simp add: addComponent_def)
    then have w': "w' = w" by (simp add: w'_def)
    have "?arr ! e OR ?b = ?arr ! e" using True by (rule or_absorb_present)
    then show ?thesis using hc wf run unfolding w' by simp
  next
    case False
    then have hc: "hasComponent w c e = Inr False" using hw(2) [of e] rd by simp
    from ent(2) obtain cs where ec: "w_entityComponents w e = Some cs" by blast
    from addComponent_run [OF ex cm hw(1) hc ec, of E reset] obtain w1 where
      run: "addComponent E w c (Some e) reset = Ok w1" and
      m: "w_entityMasks w1 = (w_entityMasks w)[?g := writeElem ?arr e (readMask ?arr e OR ?b)]" and
      fr: "w_componentMap w1 = w_componentMap w" "w_bitflag w1 = w_bitflag w"
        "w_size w1 = w_size w" "w_entitySparseSet w1 = w_entitySparseSet w"
        "w_entityComponents w1 = (w_entityComponents w)(e \<mapsto> insert c cs)"
      by blast
    have w': "w' = w1" using run by (simp add: w'_def)
    have we: "writeElem ?arr e (readMask ?arr e OR ?b) = ?arr[e := ?arr ! e OR ?b]"
      using ent(1) rd by (simp add: writeElem_def)
    have wf1: "wf_world w1"
      by (rule wf_mask_update [OF wf m ent(3) _ fr(2) fr(1) fr(4) fr(3) fr(5)])
         (simp only: we length_list_update)
    have cm1: "w_componentMap w1 c = Some r" using cm fr by simp
    have m': "w_entityMasks w1 = (w_entityMasks w)[?g := ?arr[e := ?arr ! e OR ?b]]"
      using m unfolding we .
    have "readMask (w_entityMasks w1 ! ?g) e = ?arr ! e OR ?b"
      using ent(1) ent(3) by (simp add: m' readMask_def)
    then have "hasComponent w1 c e = Inr True"
      using hasComponent_wf(2) [OF wf1 cm1, of e] by simp
    then show ?thesis using m' wf1 fr run unfolding w' by simp
  qed
  from goal show "w_entityMasks w' = (w_entityMasks w)[?g := ?arr[e := ?arr ! e OR ?b]]" by blast
  from goal show "hasComponent w' c e = Inr True" by blast
  from goal show "wf_world w'" by blast
  from goal show "w_componentMap w' = w_componentMap w" by blast
  from goal show "w_entitySparseSet w' = w_entitySparseSet w" by blast
  from goal show "\<exists>w''. addComponent E w c (Some e) reset = Ok w''" by blast
qed

lemma toInt32_usable:
  assumes "usable_bit b" obtains k where "k < 31" "toInt32 b = 2 ^ k"
  using assms by (auto simp: usable_bit_def toInt32_pow)

lemma removeComponent_registered:
  fixes E :: qengine and reset :: "bool option"
  assumes wf: "wf_world w" and ex: "e \<in> w_entitySparseSet w"
    and cm: "w_componentMap w c = Some r"
  defines "w' \<equiv> state_of (removeComponent E w c (Some e) reset)"
  shows "w_entityMasks w' = (w_entityMasks w)[nat (generationId r) :=
            (w_entityMasks w ! nat (generationId r))[e :=
               w_entityMasks w ! nat (generationId r) ! e AND NOT (toInt32 (bitflag r))]]"
    and "hasComponent w' c e = Inr False"
    and "wf_world w'"
    and "w_componentMap w' = w_componentMap w"
    and "w_entitySparseSet w' = w_entitySparseSet w"
    and "\<exists>w''. removeComponent E w c (Some e) reset = Ok w''"
proof -
  let ?g = "nat (generationId r)"
  let ?arr = "w_entityMasks w ! ?g"
  let ?b = "toInt32 (bitflag r)"
  note ent = wf_entity [OF wf ex cm]
  note hw = hasComponent_wf [OF wf cm]
  from wf cm have "usable_bit (bitflag r)" unfolding wf_world_def by blast
  then obtain k where k: "k < 31" "?b = 2 ^ k" by (rule toInt32_usable)
  have b0: "?b \<noteq> 0" using k by simp
  have rd: "readMask ?arr e = ?arr ! e" using ent(1) by (simp add: readMask_def)
  have goal: "w_entityMasks w' = (w_entityMasks w)[?g := ?arr[e := ?arr ! e AND NOT ?b]] \<and>
     hasComponent w' c e = Inr False \<and> wf_world w' \<and> w_componentMap w' = w_componentMap w \<and>
     w_entitySparseSet w' = w_entitySparseSet w \<and> (\<exists>w''. removeComponent E w c (Some e) reset = Ok w'')"
  proof (cases "?arr ! e AND ?b = ?b")
    case False
    then have hc: "hasComponent w c e = Inr False" using hw(2) [of e] rd by simp
    have run: "removeComponent E w c (Some e) reset = Ok w"
      using ex cm hc by (simp add: removeComponent_def)
    then have w': "w' = w" by (simp add: w'_def)
    have "?arr ! e AND NOT ?b = ?arr ! e"
      using False unfolding k(2) by (rule single_bit_absent)
    then show ?thesis using hc wf run unfolding w' by simp
  next
    case True
    then have hc: "hasComponent w c e = Inr True" using hw(2) [of e] rd by simp
    from ent(2) obtain cs where ec: "w_entityComponents w e = Some cs" by blast
    from removeComponent_run [OF ex cm hw(1) hc ec, of E reset] obtain w1 where
      run: "removeComponent E w c (Some e) reset = Ok w1" and
      m: "w_entityMasks w1 = (w_entityMasks w)[?g := writeElem ?arr e (readMask ?arr e AND NOT ?b)]" and
      fr: "w_componentMap w1 = w_componentMap w" "w_bitflag w1 = w_bitflag w"
        "w_size w1 = w_size w" "w_entitySparseSet w1 = w_entitySparseSet w"
        "w_entityComponents w1 = (w_entityComponents w)(e \<mapsto> cs - {c})"
      by blast
    have w': "w' = w1" using run by (simp add: w'_def)
    have we: "writeElem ?arr e (readMask ?arr e AND NOT ?b) = ?arr[e := ?arr ! e AND NOT ?b]"
      using ent(1) rd by (simp add: writeElem_def)
    have wf1: "wf_world w1"
      by (rule wf_mask_update [OF wf m ent(3) _ fr(2) fr(1) fr(4) fr(3) fr(5)])
         (simp only: we length_list_update)
    have cm1: "w_componentMap w1 c = Some r" using cm fr by simp
    have m': "w_entityMasks w1 = (w_entityMasks w)[?g := ?arr[e := ?arr ! e AND NOT ?b]]"
      using m unfolding we .
    have "readMask (w_entityMasks w1 ! ?g) e = ?arr ! e AND NOT ?b"
      using ent(1) ent(3) by (simp add: m' readMask_def)
    moreover have "(?arr ! e AND NOT ?b) AND ?b \<noteq> ?b"
      using b0 by (simp add: andnot_and)
    ultimately have "hasComponent w1 c e = Inr False"
      using hasComponent_wf(2) [OF wf1 cm1, of e] by simp
    then show ?thesis using m' wf1 fr run unfolding w' by simp
  qed
  from goal show "w_entityMasks w' = (w_entityMasks w)[?g := ?arr[e := ?arr ! e AND NOT ?b]]" by blast
  from goal show "hasComponent w' c e = Inr False" by blast
  from goal show "wf_world w'" by blast
  from goal show "w_componentMap w' = w_componentMap w" by blast
  from goal show "w_entitySparseSet w' = w_entitySparseSet w" by blast
  from goal show "\<exists>w''. removeComponent E w c (Some e) reset = Ok w''" by blast
qed

section \<open>Lazy registration\<close>

lemma replicate_2: "replicate 2 x = [x, x]"
  by (simp add: numeral_2_eq_2)

lemma world1_fields:
  "w_bitflag world1 = 2"
  "w_size world1 = 2"
  "w_entityMasks world1 = [[0, 0]]"
  "w_componentMap world1 = [Some 0 \<mapsto> \<lparr>generationId = 0, bitflag = 1, store = Some 0,
      queries = [0], notQueries = [], changedQueries = []\<rparr>]"
  "w_queries world1 = [0]"
  "w_entitySparseSet world1 = {0, 1}"
  "w_entityComponents world1 = [0 \<mapsto> {}, 1 \<mapsto> {}]"
  "h_store world1 = (\<lambda>_. demoStore)"
  "h_query world1 = (\<lambda>_. \<lparr>allComponents = [Some 0], toRemove = {}, entered = {}, exited = {},
                           results = {}\<rparr>)"
  by (simp_all add: world1_def world0_def createWorld_def registerComponent_def
      incrementBitflag_def Let_def set_add_def replicate_2)

lemma wf_world0: "wf_world world0"
proof -
  have "usable_bit (2 ^ 0)" by (rule usable_bit_pow) simp
  then show ?thesis by (simp add: wf_world_def world0_def createWorld_def replicate_2)
qed

lemma wf_world1: "wf_world world1"
  unfolding world1_def by (rule wf_registerComponent_any [OF wf_world0])

lemma registerComponent_Ok:
  assumes "registerComponent w c = Ok w1"
  shows "\<exists>r. w_componentMap w1 c = Some r" and "w_entitySparseSet w1 = w_entitySparseSet w"
  using assms
  by (cases c; simp add: registerComponent_def Let_def incrementBitflag_def
      split: if_splits; auto)+

lemma registerComponent_Throw:
  assumes "registerComponent w c = Throw err w1"
  shows "w1 = w" and "err = NullComponent" and "c = None"
  using assms by (cases c; simp add: registerComponent_def Let_def)+

lemma addComponent_unregistered:
  assumes ex: "e \<in> w_entitySparseSet w" and cm: "w_componentMap w c = None"
  shows "addComponent E w c (Some e) reset =
           (case registerComponent w c of
              Throw err w1 \<Rightarrow> Throw err w1
            | Ok w1 \<Rightarrow> addComponent E w1 c (Some e) reset)"
proof (cases "registerComponent w c")
  case (Throw err w1)
  then show ?thesis using ex cm by (simp add: addComponent_def)
next
  case (Ok w1)
  from registerComponent_Ok [OF Ok] obtain r where
    r: "w_componentMap w1 c = Some r" and s: "w_entitySparseSet w1 = w_entitySparseSet w"
    by blast
  have "addComponent E w c (Some e) reset =
          (case hasComponent w1 c e of
                    Inl err \<Rightarrow> Throw err w1
                  | Inr True \<Rightarrow> Ok w1
                  | Inr False \<Rightarrow>
                      (case w_componentMap w1 c of
                         None \<Rightarrow> Throw TypeError w1
                       | Some r \<Rightarrow>
                           (case generation w1 (generationId r) of
                              None \<Rightarrow> Throw TypeError w1
                            | Some arr \<Rightarrow>
                                let w2 = writeMask w1 (generationId r) e
                                           (readMask arr e OR toInt32 (bitflag r));
                                    w3 = foldl (addComponent_forEach E e) w2 (queries r)
                                in (case w_entityComponents w3 e of
                                      None \<Rightarrow> Throw TypeError w3
                                    | Some cs \<Rightarrow>
                                        let w4 = w3\<lparr>w_entityComponents :=
                                                     (w_entityComponents w3)(e \<mapsto> insert c cs)\<rparr>
                                        in if (case reset of None \<Rightarrow> False | Some b \<Rightarrow> b)
                                           then Ok (set_comp_section w4 c
                                                      (resetStoreFor (comp_section w4 c) e))
                                           else Ok w4))))"
    using ex cm Ok unfolding addComponent_def by simp
  also have "\<dots> = addComponent E w1 c (Some e) reset"
    using ex s r unfolding addComponent_def by simp
  finally show ?thesis using Ok by simp
qed

lemma wf_addComponent:
  assumes wf: "wf_world w"
  shows "wf_world (state_of (addComponent E w c eid reset))"
proof (cases eid)
  case None
  then show ?thesis using wf by (simp add: addComponent_def)
next
  case (Some e)
  show ?thesis
  proof (cases "e \<in> w_entitySparseSet w")
    case False
    then show ?thesis using wf Some by (simp add: addComponent_def)
  next
    case ex: True
    show ?thesis
    proof (cases "w_componentMap w c")
      case (Some r)
      from addComponent_registered(3) [OF wf ex Some] show ?thesis unfolding \<open>eid = Some e\<close> .
    next
      case None
      note un = addComponent_unregistered [OF ex None, of E reset]
      show ?thesis
      proof (cases "registerComponent w c")
        case (Throw err w1)
        with registerComponent_Throw(1) [OF Throw] show ?thesis
          using wf un \<open>eid = Some e\<close> by simp
      next
        case (Ok w1)
        from registerComponent_Ok [OF Ok] obtain r where
          r: "w_componentMap w1 c = Some r" and s: "w_entitySparseSet w1 = w_entitySparseSet w"
          by blast
        have wf1: "wf_world w1" by (rule wf_registerComponent [OF wf Ok])
        have ex1: "e \<in> w_entitySparseSet w1" using ex s by simp
        from addComponent_registered(3) [OF wf1 ex1 r, of E reset] show ?thesis
          using un Ok \<open>eid = Some e\<close> by simp
      qed
    qed
  qed
qed

lemma removeComponent_unregistered:
  assumes "w_componentMap w c = None"
  shows "state_of (removeComponent E w c eid reset) = w"
    and "e \<in> w_entitySparseSet w \<Longrightarrow> removeComponent E w c (Some e) reset = Ok w"
  using assms
  by (cases eid; simp add: removeComponent_def hasComponent_def)+

lemma wf_removeComponent:
  assumes wf: "wf_world w"
  shows "wf_world (state_of (removeComponent E w c eid reset))"
proof (cases "w_componentMap w c")
  case None
  then show ?thesis using wf by (simp add: removeComponent_unregistered(1))
next
  case (Some r)
  show ?thesis
  proof (cases eid)
    case None
    then show ?thesis using wf by (simp add: removeComponent_def)
  next
    case e: (Some e)
    show ?thesis
    proof (cases "e \<in> w_entitySparseSet w")
      case False
      then show ?thesis using wf e by (simp add: removeComponent_def)
    next
      case True
      from removeComponent_registered(3) [OF wf True Some] show ?thesis unfolding e .
    qed
  qed
qed

section \<open>Membership and the existence guard\<close>

text \<open>
  C1: in a well-formed world, for every registered component with record \<open>(g, b)\<close> and
  every entity \<open>e\<close>, \<open>hasComponent\<close> returns true exactly when
  \<open>(entityMasks[g][e] & b) == b\<close>; add and remove keep the world well-formed, so the
  equivalence holds again when they return; and on an existing entity \<open>addComponent\<close>
  sets exactly the bit \<open>b\<close> of \<open>entityMasks[g][e]\<close> (after which \<open>hasComponent\<close>
  is true) and \<open>removeComponent\<close> clears exactly it (after which it is false).
\<close>

theorem membership_invariant:
  assumes "wf_world w"
  shows "(\<forall>c r e. w_componentMap w c = Some r \<longrightarrow>
            hasComponent w c e =
              Inr (readMask (w_entityMasks w ! nat (generationId r)) e AND toInt32 (bitflag r)
                   = toInt32 (bitflag r))) \<and>
         wf_world (state_of (addComponent E w c' eid reset)) \<and>
         wf_world (state_of (removeComponent E w c' eid reset)) \<and>
         (\<forall>c r e. w_componentMap w c = Some r \<and> e \<in> w_entitySparseSet w \<longrightarrow>
            (let g = nat (generationId r);
                 arr = w_entityMasks w ! g;
                 b = toInt32 (bitflag r);
                 wa = state_of (addComponent E w c (Some e) reset);
                 wr = state_of (removeComponent E w c (Some e) reset)
             in w_entityMasks wa = (w_entityMasks w)[g := arr[e := arr ! e OR b]] \<and>
                hasComponent wa c e = Inr True \<and>
                w_entityMasks wr = (w_entityMasks w)[g := arr[e := arr ! e AND NOT b]] \<and>
                hasComponent wr c e = Inr False))"
proof (intro conjI allI impI)
  fix c r e assume "w_componentMap w c = Some r"
  then show "hasComponent w c e =
              Inr (readMask (w_entityMasks w ! nat (generationId r)) e AND toInt32 (bitflag r)
                   = toInt32 (bitflag r))"
    by (rule hasComponent_wf(2) [OF assms])
next
  show "wf_world (state_of (addComponent E w c' eid reset))"
    by (rule wf_addComponent [OF assms])
next
  show "wf_world (state_of (removeComponent E w c' eid reset))"
    by (rule wf_removeComponent [OF assms])
next
  fix c r e assume a: "w_componentMap w c = Some r \<and> e \<in> w_entitySparseSet w"
  then have cm: "w_componentMap w c = Some r" and ex: "e \<in> w_entitySparseSet w" by simp_all
  show "let g = nat (generationId r);
                 arr = w_entityMasks w ! g;
                 b = toInt32 (bitflag r);
                 wa = state_of (addComponent E w c (Some e) reset);
                 wr = state_of (removeComponent E w c (Some e) reset)
             in w_entityMasks wa = (w_entityMasks w)[g := arr[e := arr ! e OR b]] \<and>
                hasComponent wa c e = Inr True \<and>
                w_entityMasks wr = (w_entityMasks w)[g := arr[e := arr ! e AND NOT b]] \<and>
                hasComponent wr c e = Inr False"
    unfolding Let_def
    using addComponent_registered(1,2) [OF assms ex cm, of E reset]
      removeComponent_registered(1,2) [OF assms ex cm, of E reset]
    by blast
qed

theorem membership_invariant_witness:
  "hasComponent world1 (Some 0) 0 = Inr False \<and>
   w_entityMasks (state_of (addComponent specEngine world1 (Some 0) (Some 0) None)) = [[1, 0]] \<and>
   hasComponent (state_of (addComponent specEngine world1 (Some 0) (Some 0) None)) (Some 0) 0
     = Inr True \<and>
   hasComponent (state_of (removeComponent specEngine world1 (Some 0) (Some 0) None)) (Some 0) 0
     = Inr False"
proof -
  let ?r = "\<lparr>generationId = 0, bitflag = 1, store = Some 0,
      queries = [0], notQueries = [], changedQueries = []\<rparr>"
  have cm: "w_componentMap world1 (Some 0) = Some ?r" by (simp add: world1_fields)
  have ex: "0 \<in> w_entitySparseSet world1" by (simp add: world1_fields)
  note m = membership_invariant [OF wf_world1, of specEngine "Some 0" "Some 0" None]
  from m have "hasComponent world1 (Some 0) 0 =
              Inr (readMask (w_entityMasks world1 ! nat (generationId ?r)) 0 AND toInt32 (bitflag ?r)
                   = toInt32 (bitflag ?r))"
    using cm by blast
  then have 1: "hasComponent world1 (Some 0) 0 = Inr False"
    by (simp add: world1_fields readMask_def toInt32_def)
  from m cm ex have "(let g = nat (generationId ?r);
                 arr = w_entityMasks world1 ! g;
                 b = toInt32 (bitflag ?r);
                 wa = state_of (addComponent specEngine world1 (Some 0) (Some 0) None);
                 wr = state_of (removeComponent specEngine world1 (Some 0) (Some 0) None)
             in w_entityMasks wa = (w_entityMasks world1)[g := arr[0 := arr ! 0 OR b]] \<and>
                hasComponent wa (Some 0) 0 = Inr True \<and>
                w_entityMasks wr = (w_entityMasks world1)[g := arr[0 := arr ! 0 AND NOT b]] \<and>
                hasComponent wr (Some 0) 0 = Inr False)"
    by blast
  then show ?thesis using 1 by (simp add: Let_def world1_fields toInt32_def)
qed

text \<open>
  C5: every mutation throws \<open>EntityUndefined\<close> for an undefined entity and
  \<open>EntityNotFound\<close> for an entity outside the existence set, in both cases with the
  world, and so every entity mask, as it was.
\<close>

theorem existence_guard:
  "addComponent E w c None reset = Throw EntityUndefined w \<and>
   removeComponent E w c None reset = Throw EntityUndefined w \<and>
   updateComponent w c None data = Throw EntityUndefined w \<and>
   addAndPartiallyFillComponent E w c None data reset = Throw EntityUndefined w \<and>
   addAndFillComponent E w c None data reset = Throw EntityUndefined w \<and>
   (e \<notin> w_entitySparseSet w \<longrightarrow>
      addComponent E w c (Some e) reset = Throw EntityNotFound w \<and>
      removeComponent E w c (Some e) reset = Throw EntityNotFound w \<and>
      updateComponent w c (Some e) data = Throw EntityNotFound w \<and>
      addAndPartiallyFillComponent E w c (Some e) data reset = Throw EntityNotFound w \<and>
      addAndFillComponent E w c (Some e) data reset = Throw EntityNotFound w \<and>
      w_entityMasks (state_of (addComponent E w c (Some e) reset)) = w_entityMasks w \<and>
      w_entityMasks (state_of (removeComponent E w c (Some e) reset)) = w_entityMasks w \<and>
      w_entityMasks (state_of (updateComponent w c (Some e) data)) = w_entityMasks w)"
  by (simp add: addComponent_def removeComponent_def updateComponent_def
      addAndPartiallyFillComponent_def addAndFillComponent_def)

theorem existence_guard_witness:
  "5 \<notin> w_entitySparseSet world1 \<and>
   addComponent specEngine world1 (Some 0) (Some 5) None = Throw EntityNotFound world1 \<and>
   removeComponent specEngine world1 (Some 0) (Some 5) None = Throw EntityNotFound world1 \<and>
   updateComponent world1 (Some 0) (Some 5) (JObj [(''hp'', JNum 3)]) = Throw EntityNotFound world1 \<and>
   w_entityMasks (state_of (addComponent specEngine world1 (Some 0) (Some 5) None)) =
     w_entityMasks world1"
proof -
  have h: "5 \<notin> w_entitySparseSet world1" by (simp add: world1_fields)
  with existence_guard [of specEngine world1 "Some 0" None "JObj [(''hp'', JNum 3)]" 5]
  show ?thesis by blast
qed

text \<open>
  C10: when \<open>addComponent\<close> throws \<open>EntityUndefined\<close> or \<open>EntityNotFound\<close> the
  world is unchanged, in particular the registry, the cursor and the masks: the throw comes
  from one of the two existence checks, which run before the lazy registration.
\<close>

theorem failed_guard_leaves_registry:
  assumes "addComponent E w c eid reset = Throw err w'"
    and "err = EntityUndefined \<or> err = EntityNotFound"
  shows "w' = w \<and> w_componentMap w' = w_componentMap w \<and> w_bitflag w' = w_bitflag w \<and>
         w_entityMasks w' = w_entityMasks w \<and>
         (eid = None \<or> (\<exists>e. eid = Some e \<and> e \<notin> w_entitySparseSet w))"
proof (cases eid)
  case None
  then show ?thesis using assms by (simp add: addComponent_def)
next
  case (Some e)
  show ?thesis
  proof (cases "e \<in> w_entitySparseSet w")
    case False
    then show ?thesis using assms Some by (simp add: addComponent_def)
  next
    case True
    have "err = NullComponent \<or> err = TypeError"
    proof (cases "w_componentMap w c")
      case None
      show ?thesis
      proof (cases "registerComponent w c")
        case (Throw err1 w1)
        with registerComponent_Throw(2) [OF Throw] show ?thesis
          using assms(1) True None Some by (simp add: addComponent_def)
      next
        case (Ok w1)
        then show ?thesis using assms(1) True None Some
          by (auto simp: addComponent_def hasComponent_def Let_def
              split: option.splits sum.splits bool.splits if_splits)
      qed
    next
      case r: (Some r)
      then show ?thesis using assms(1) True Some
        by (auto simp: addComponent_def hasComponent_def Let_def
            split: option.splits sum.splits bool.splits if_splits)
    qed
    with assms(2) show ?thesis by auto
  qed
qed

theorem failed_guard_leaves_registry_witness:
  "addComponent specEngine world0 (Some 0) (Some 5) None = Throw EntityNotFound world0 \<and>
   w_componentMap world0 (Some 0) = None \<and> w_bitflag world0 = 1"
proof -
  have run: "addComponent specEngine world0 (Some 0) (Some 5) None = Throw EntityNotFound world0"
    by (simp add: addComponent_def world0_def)
  from failed_guard_leaves_registry [OF run] show ?thesis
    using run by (simp add: world0_def createWorld_def)
qed

section \<open>No-ops and idempotence\<close>

lemma addComponent_present:
  assumes "e \<in> w_entitySparseSet w" "hasComponent w c e = Inr True"
  shows "addComponent E w c (Some e) reset = Ok w"
proof -
  have "w_componentMap w c \<noteq> None"
    using assms(2) by (auto simp: hasComponent_def split: option.splits)
  then show ?thesis using assms by (auto simp: addComponent_def)
qed

lemma removeComponent_absent:
  assumes "e \<in> w_entitySparseSet w" "hasComponent w c e = Inr False"
  shows "removeComponent E w c (Some e) reset = Ok w"
  using assms by (simp add: removeComponent_def)

lemma updateComponent_absent:
  assumes "e \<in> w_entitySparseSet w" "hasComponent w c e = Inr False"
  shows "updateComponent w c (Some e) data = Ok w"
  using assms by (simp add: updateComponent_def)

lemma addComponent_twice:
  assumes wf: "wf_world w"
  shows "state_of (addComponent E (state_of (addComponent E w c eid reset)) c eid reset') =
         state_of (addComponent E w c eid reset)"
proof (cases eid)
  case None
  then show ?thesis by (simp add: addComponent_def)
next
  case (Some e)
  show ?thesis
  proof (cases "e \<in> w_entitySparseSet w")
    case False
    then show ?thesis using Some by (simp add: addComponent_def)
  next
    case ex: True
    have reg: "state_of (addComponent E (state_of (addComponent E v c (Some e) reset)) c (Some e) reset') =
         state_of (addComponent E v c (Some e) reset)"
      if wfv: "wf_world v" and exv: "e \<in> w_entitySparseSet v" and cm: "w_componentMap v c = Some r"
      for v r
    proof -
      note a = addComponent_registered [OF wfv exv cm, of E reset]
      from a(5) exv have "e \<in> w_entitySparseSet (state_of (addComponent E v c (Some e) reset))"
        by simp
      from addComponent_present [OF this a(2)] show ?thesis by simp
    qed
    show ?thesis
    proof (cases "w_componentMap w c")
      case (Some r)
      from reg [OF wf ex Some] show ?thesis unfolding \<open>eid = Some e\<close> .
    next
      case None
      note un = addComponent_unregistered [OF ex None, of E reset]
      show ?thesis
      proof (cases "registerComponent w c")
        case (Throw err w1)
        from registerComponent_Throw(1) [OF Throw] have first: "addComponent E w c (Some e) reset = Throw err w"
          using un Throw by simp
        have "addComponent E w c (Some e) reset' = Throw err w"
          using addComponent_unregistered [OF ex None, of E reset'] Throw
            registerComponent_Throw(1) [OF Throw] by simp
        then show ?thesis using first \<open>eid = Some e\<close> by simp
      next
        case (Ok w1)
        from registerComponent_Ok [OF Ok] obtain r where
          r: "w_componentMap w1 c = Some r" and s: "w_entitySparseSet w1 = w_entitySparseSet w"
          by blast
        have wf1: "wf_world w1" by (rule wf_registerComponent [OF wf Ok])
        have ex1: "e \<in> w_entitySparseSet w1" using ex s by simp
        have "addComponent E w c (Some e) reset = addComponent E w1 c (Some e) reset"
          using un Ok by simp
        with reg [OF wf1 ex1 r] show ?thesis using \<open>eid = Some e\<close> by simp
      qed
    qed
  qed
qed

lemma removeComponent_twice:
  assumes wf: "wf_world w"
  shows "state_of (removeComponent E (state_of (removeComponent E w c eid reset)) c eid reset') =
         state_of (removeComponent E w c eid reset)"
proof (cases "w_componentMap w c")
  case None
  then show ?thesis by (simp add: removeComponent_unregistered(1))
next
  case (Some r)
  show ?thesis
  proof (cases eid)
    case None
    then show ?thesis by (simp add: removeComponent_def)
  next
    case e: (Some e)
    show ?thesis
    proof (cases "e \<in> w_entitySparseSet w")
      case False
      then show ?thesis using e by (simp add: removeComponent_def)
    next
      case True
      note a = removeComponent_registered [OF wf True Some, of E reset]
      from a(5) True have "e \<in> w_entitySparseSet (state_of (removeComponent E w c (Some e) reset))"
        by simp
      from removeComponent_absent [OF this a(2)] show ?thesis unfolding e by simp
    qed
  qed
qed

text \<open>
  C6: in a well-formed world a second \<open>addComponent\<close> with the same arguments leaves
  the state of the first, and likewise for \<open>removeComponent\<close>; on an existing entity,
  adding a present component, removing an absent one and updating an absent one return
  normally with the world unchanged.
\<close>

theorem noop_idempotence:
  assumes "wf_world w"
  shows "state_of (addComponent E (state_of (addComponent E w c eid reset)) c eid reset) =
           state_of (addComponent E w c eid reset) \<and>
         state_of (removeComponent E (state_of (removeComponent E w c eid reset)) c eid reset) =
           state_of (removeComponent E w c eid reset) \<and>
         (e \<in> w_entitySparseSet w \<and> hasComponent w c e = Inr True \<longrightarrow>
            addComponent E w c (Some e) reset = Ok w) \<and>
         (e \<in> w_entitySparseSet w \<and> hasComponent w c e = Inr False \<longrightarrow>
            removeComponent E w c (Some e) reset = Ok w \<and>
            updateComponent w c (Some e) data = Ok w)"
proof (intro conjI impI)
  show "state_of (addComponent E (state_of (addComponent E w c eid reset)) c eid reset) =
           state_of (addComponent E w c eid reset)"
    by (rule addComponent_twice [OF assms])
  show "state_of (removeComponent E (state_of (removeComponent E w c eid reset)) c eid reset) =
           state_of (removeComponent E w c eid reset)"
    by (rule removeComponent_twice [OF assms])
next
  assume "e \<in> w_entitySparseSet w \<and> hasComponent w c e = Inr True"
  then show "addComponent E w c (Some e) reset = Ok w"
    by (simp add: addComponent_present)
next
  assume "e \<in> w_entitySparseSet w \<and> hasComponent w c e = Inr False"
  then show "removeComponent E w c (Some e) reset = Ok w"
    by (simp add: removeComponent_absent)
next
  assume "e \<in> w_entitySparseSet w \<and> hasComponent w c e = Inr False"
  then show "updateComponent w c (Some e) data = Ok w"
    by (simp add: updateComponent_absent)
qed

theorem noop_idempotence_witness:
  "state_of (addComponent specEngine
       (state_of (addComponent specEngine world1 (Some 0) (Some 0) None)) (Some 0) (Some 0) None) =
     state_of (addComponent specEngine world1 (Some 0) (Some 0) None) \<and>
   0 \<in> w_entitySparseSet world1 \<and> hasComponent world1 (Some 0) 0 = Inr False \<and>
   removeComponent specEngine world1 (Some 0) (Some 0) None = Ok world1 \<and>
   updateComponent world1 (Some 0) (Some 0) (JObj [(''hp'', JNum 3)]) = Ok world1"
proof -
  have ex: "0 \<in> w_entitySparseSet world1" by (simp add: world1_fields)
  have hc: "hasComponent world1 (Some 0) 0 = Inr False"
    by (simp add: hasComponent_def world1_fields generation_def readMask_def toInt32_def)
  from noop_idempotence [OF wf_world1, of specEngine "Some 0" "Some 0" None 0
      "JObj [(''hp'', JNum 3)]"]
  show ?thesis using ex hc by blast
qed

text \<open>
  C3, as amended: \<open>removeComponent\<close> makes the same two existence checks as
  \<open>addComponent\<close> but never registers: for a component without a record in this world
  it leaves the world unchanged, and on an existing entity it returns normally.
\<close>

theorem removeComponent_never_registers:
  assumes "w_componentMap w c = None"
  shows "state_of (removeComponent E w c eid reset) = w \<and>
         removeComponent E w c None reset = addComponent E w c None reset \<and>
         (e \<notin> w_entitySparseSet w \<longrightarrow>
            removeComponent E w c (Some e) reset = addComponent E w c (Some e) reset) \<and>
         (e \<in> w_entitySparseSet w \<longrightarrow> removeComponent E w c (Some e) reset = Ok w)"
  using removeComponent_unregistered [OF assms]
  by (simp add: removeComponent_def addComponent_def)

theorem removeComponent_never_registers_witness:
  "w_componentMap world0 (Some 0) = None \<and> 0 \<in> w_entitySparseSet world0 \<and>
   removeComponent specEngine world0 (Some 0) (Some 0) None = Ok world0"
proof -
  have cm: "w_componentMap world0 (Some 0) = None" by (simp add: world0_def createWorld_def)
  have ex: "0 \<in> w_entitySparseSet world0" by (simp add: world0_def)
  from removeComponent_never_registers [OF cm, of specEngine None None 0]
  show ?thesis using cm ex by blast
qed

text \<open>
  C3 as stated fails: in \<open>world0\<close> entity 0 exists and component 0 is unregistered;
  after \<open>removeComponent\<close> the component is still unregistered and the cursor is still 1,
  whereas \<open>addComponent\<close> on the same input registers it and moves the cursor to 2.
\<close>

theorem removeComponent_registers_counterexample:
  "0 \<in> w_entitySparseSet world0 \<and>
   w_componentMap world0 (Some 0) = None \<and>
   w_componentMap (state_of (removeComponent specEngine world0 (Some 0) (Some 0) None)) (Some 0)
     = None \<and>
   w_bitflag (state_of (removeComponent specEngine world0 (Some 0) (Some 0) None)) = 1 \<and>
   w_componentMap (state_of (addComponent specEngine world0 (Some 0) (Some 0) None)) (Some 0)
     \<noteq> None \<and>
   w_bitflag (state_of (addComponent specEngine world0 (Some 0) (Some 0) None)) = 2"
proof -
  have cm: "w_componentMap world0 (Some 0) = None" by (simp add: world0_def createWorld_def)
  have ex: "0 \<in> w_entitySparseSet world0" by (simp add: world0_def)
  have b: "w_bitflag world0 = 1" by (simp add: world0_def createWorld_def)
  have rm: "removeComponent specEngine world0 (Some 0) (Some 0) None = Ok world0"
    using cm ex by (simp add: removeComponent_def hasComponent_def)
  have reg: "registerComponent world0 (Some 0) = Ok world1"
    by (simp add: world1_def registerComponent_def Let_def)
  have ad: "addComponent specEngine world0 (Some 0) (Some 0) None =
              addComponent specEngine world1 (Some 0) (Some 0) None"
    using addComponent_unregistered [OF ex cm, of specEngine None] reg by simp
  have ex1: "0 \<in> w_entitySparseSet world1" by (simp add: world1_fields)
  have cm1: "w_componentMap world1 (Some 0) = Some \<lparr>generationId = 0, bitflag = 1, store = Some 0,
      queries = [0], notQueries = [], changedQueries = []\<rparr>" by (simp add: world1_fields)
  have hc: "hasComponent world1 (Some 0) 0 = Inr False"
    by (simp add: hasComponent_def world1_fields generation_def readMask_def toInt32_def)
  have gen: "generation world1 (generationId \<lparr>generationId = 0, bitflag = 1, store = Some 0,
      queries = [0], notQueries = [], changedQueries = []\<rparr>) = Some [0, 0]"
    by (simp add: generation_def world1_fields)
  have ec: "w_entityComponents world1 0 = Some {}" by (simp add: world1_fields)
  from addComponent_run [OF ex1 cm1 gen hc ec, of specEngine None] obtain w' where
    "addComponent specEngine world1 (Some 0) (Some 0) None = Ok w'"
    "w_componentMap w' = w_componentMap world1" "w_bitflag w' = w_bitflag world1"
    by blast
  then show ?thesis using cm ex b rm ad cm1 by (simp add: world1_fields)
qed

section \<open>Query synchronization\<close>

lemma addComponent_forEach_spec: "addComponent_forEach E e w qa = syncQuery_spec E e w qa"
  by (simp add: addComponent_forEach_def syncQuery_spec_def upd_query_def Let_def)

lemma removeComponent_forEach_spec: "removeComponent_forEach E e w qa = syncQuery_spec E e w qa"
  by (simp add: removeComponent_forEach_def syncQuery_spec_def upd_query_def Let_def)

lemma foldl_cong_fun: "(\<And>a x. f a x = g a x) \<Longrightarrow> foldl f a xs = foldl g a xs"
  by (induction xs arbitrary: a) simp_all

text \<open>
  C4: the \<open>forEach\<close> callbacks of \<open>addComponent\<close> and \<open>removeComponent\<close> are both
  the routine of the specification; an effective add (or remove) of a registered component
  leaves the query objects as that routine, run over the component's interested queries in
  order, leaves them from the world with the entity's mask bit set (or cleared).
\<close>

theorem query_synchronization:
  "addComponent_forEach E e w qa = syncQuery_spec E e w qa \<and>
   removeComponent_forEach E e w qa = syncQuery_spec E e w qa \<and>
   (wf_world w \<and> e \<in> w_entitySparseSet w \<and> w_componentMap w c = Some r \<longrightarrow>
      (let g = generationId r;
           arr = w_entityMasks w ! nat g;
           b = toInt32 (bitflag r)
       in (hasComponent w c e = Inr False \<longrightarrow>
             h_query (state_of (addComponent E w c (Some e) reset)) =
               h_query (foldl (syncQuery_spec E e) (writeMask w g e (readMask arr e OR b))
                          (queries r))) \<and>
          (hasComponent w c e = Inr True \<longrightarrow>
             h_query (state_of (removeComponent E w c (Some e) reset)) =
               h_query (foldl (syncQuery_spec E e) (writeMask w g e (readMask arr e AND NOT b))
                          (queries r)))))"
proof (intro conjI impI)
  show "addComponent_forEach E e w qa = syncQuery_spec E e w qa"
    by (rule addComponent_forEach_spec)
  show "removeComponent_forEach E e w qa = syncQuery_spec E e w qa"
    by (rule removeComponent_forEach_spec)
next
  assume a: "wf_world w \<and> e \<in> w_entitySparseSet w \<and> w_componentMap w c = Some r"
  then have wf: "wf_world w" and ex: "e \<in> w_entitySparseSet w"
    and cm: "w_componentMap w c = Some r" by simp_all
  note gen = hasComponent_wf(1) [OF wf cm]
  from wf_entity(2) [OF wf ex cm] obtain cs where ec: "w_entityComponents w e = Some cs" by blast
  have fa: "foldl (addComponent_forEach E e) v qs = foldl (syncQuery_spec E e) v qs" for v qs
    by (rule foldl_cong_fun) (rule addComponent_forEach_spec)
  have fr: "foldl (removeComponent_forEach E e) v qs = foldl (syncQuery_spec E e) v qs" for v qs
    by (rule foldl_cong_fun) (rule removeComponent_forEach_spec)
  have add: "h_query (state_of (addComponent E w c (Some e) reset)) =
               h_query (foldl (syncQuery_spec E e)
                 (writeMask w (generationId r) e
                    (readMask (w_entityMasks w ! nat (generationId r)) e OR toInt32 (bitflag r)))
                 (queries r))" if hc: "hasComponent w c e = Inr False"
  proof -
    from addComponent_run [OF ex cm gen hc ec, of E reset] show ?thesis
      unfolding fa by auto
  qed
  have rem: "h_query (state_of (removeComponent E w c (Some e) reset)) =
               h_query (foldl (syncQuery_spec E e)
                 (writeMask w (generationId r) e
                    (readMask (w_entityMasks w ! nat (generationId r)) e AND NOT (toInt32 (bitflag r))))
                 (queries r))" if hc: "hasComponent w c e = Inr True"
  proof -
    from removeComponent_run [OF ex cm gen hc ec, of E reset] show ?thesis
      unfolding fr by auto
  qed
  show "let g = generationId r;
           arr = w_entityMasks w ! nat g;
           b = toInt32 (bitflag r)
       in (hasComponent w c e = Inr False \<longrightarrow>
             h_query (state_of (addComponent E w c (Some e) reset)) =
               h_query (foldl (syncQuery_spec E e) (writeMask w g e (readMask arr e OR b))
                          (queries r))) \<and>
          (hasComponent w c e = Inr True \<longrightarrow>
             h_query (state_of (removeComponent E w c (Some e) reset)) =
               h_query (foldl (syncQuery_spec E e) (writeMask w g e (readMask arr e AND NOT b))
                          (queries r)))"
    unfolding Let_def using add rem by blast
qed

lemma hc_world1: "hasComponent world1 (Some 0) 0 = Inr False"
  by (simp add: hasComponent_def world1_fields generation_def readMask_def toInt32_def)

lemma world2_fields:
  "w_bitflag world2 = 2"
  "w_size world2 = 2"
  "w_entityMasks world2 = [[1, 0]]"
  "w_componentMap world2 = [Some 0 \<mapsto> \<lparr>generationId = 0, bitflag = 1, store = Some 0,
      queries = [0], notQueries = [], changedQueries = []\<rparr>]"
  "w_queries world2 = [0]"
  "w_entitySparseSet world2 = {0, 1}"
  "w_entityComponents world2 = [0 \<mapsto> {Some 0}, 1 \<mapsto> {}]"
  "h_store world2 = (\<lambda>_. demoStore)"
  "h_query world2 = (\<lambda>_. \<lparr>allComponents = [Some 0], toRemove = {}, entered = {}, exited = {},
                           results = {}\<rparr>)(0 := \<lparr>allComponents = [Some 0], toRemove = {},
                           entered = {0}, exited = {}, results = {0}\<rparr>)"
proof -
  let ?r = "\<lparr>generationId = 0, bitflag = 1, store = Some 0,
      queries = [0], notQueries = [], changedQueries = []\<rparr>"
  have ex: "0 \<in> w_entitySparseSet world1" by (simp add: world1_fields)
  have cm: "w_componentMap world1 (Some 0) = Some ?r" by (simp add: world1_fields)
  have gen: "generation world1 (generationId ?r) = Some [0, 0]"
    by (simp add: generation_def world1_fields)
  have ec: "w_entityComponents world1 0 = Some {}" by (simp add: world1_fields)
  from addComponent_run [OF ex cm gen hc_world1 ec, of specEngine None] obtain w' where
    run: "addComponent specEngine world1 (Some 0) (Some 0) None = Ok w'" and
    f: "w_entityMasks w' = (w_entityMasks world1)[nat (generationId ?r) :=
               writeElem [0, 0] 0 (readMask [0, 0] 0 OR toInt32 (bitflag ?r))]"
       "w_componentMap w' = w_componentMap world1"
       "w_bitflag w' = w_bitflag world1"
       "w_size w' = w_size world1"
       "w_queries w' = w_queries world1"
       "w_entitySparseSet w' = w_entitySparseSet world1"
       "w_entityComponents w' = (w_entityComponents world1)(0 \<mapsto> insert (Some 0) {})"
       "h_query w' = h_query (foldl (addComponent_forEach specEngine 0)
               (writeMask world1 (generationId ?r) 0 (readMask [0, 0] 0 OR toInt32 (bitflag ?r)))
               (queries ?r))"
       "h_store w' = (if None = Some True
                         then h_store (set_comp_section world1 (Some 0)
                                 (resetStoreFor (comp_section world1 (Some 0)) 0))
                         else h_store world1)"
    by blast
  have w2: "world2 = w'" by (simp add: world2_def run)
  show "w_bitflag world2 = 2" "w_size world2 = 2" "w_entityMasks world2 = [[1, 0]]"
    "w_componentMap world2 = [Some 0 \<mapsto> ?r]" "w_queries world2 = [0]"
    "w_entitySparseSet world2 = {0, 1}" "h_store world2 = (\<lambda>_. demoStore)"
    unfolding w2 f by (simp_all add: world1_fields writeElem_def readMask_def toInt32_def)
  show "w_entityComponents world2 = [0 \<mapsto> {Some 0}, 1 \<mapsto> {}]"
    unfolding w2 f by (auto simp: world1_fields)
  show "h_query world2 = (\<lambda>_. \<lparr>allComponents = [Some 0], toRemove = {}, entered = {}, exited = {},
                           results = {}\<rparr>)(0 := \<lparr>allComponents = [Some 0], toRemove = {},
                           entered = {0}, exited = {}, results = {0}\<rparr>)"
    unfolding w2 f
    by (simp add: addComponent_forEach_def upd_query_def Let_def specEngine_def writeMask_def
        hasComponent_def generation_def world1_fields writeElem_def readMask_def toInt32_def)
qed

theorem query_synchronization_witness:
  "h_query (state_of (addComponent specEngine world1 (Some 0) (Some 0) None)) 0 =
     \<lparr>allComponents = [Some 0], toRemove = {}, entered = {0}, exited = {}, results = {0}\<rparr> \<and>
   h_query (state_of (removeComponent specEngine world2 (Some 0) (Some 0) None)) 0 =
     \<lparr>allComponents = [Some 0], toRemove = {}, entered = {}, exited = {0}, results = {}\<rparr>"
proof -
  let ?r = "\<lparr>generationId = 0, bitflag = 1, store = Some 0,
      queries = [0], notQueries = [], changedQueries = []\<rparr>"
  have wf2: "wf_world world2" unfolding world2_def by (rule wf_addComponent [OF wf_world1])
  have h1: "wf_world world1 \<and> 0 \<in> w_entitySparseSet world1 \<and> w_componentMap world1 (Some 0) = Some ?r"
    using wf_world1 by (simp add: world1_fields)
  have h2: "wf_world world2 \<and> 0 \<in> w_entitySparseSet world2 \<and> w_componentMap world2 (Some 0) = Some ?r"
    using wf2 by (simp add: world2_fields)
  have hc2: "hasComponent world2 (Some 0) 0 = Inr True"
    by (simp add: hasComponent_def world2_fields generation_def readMask_def toInt32_def)
  from query_synchronization [of specEngine 0 world1 0 "Some 0" ?r None] h1 hc_world1
  have a: "h_query (state_of (addComponent specEngine world1 (Some 0) (Some 0) None)) =
               h_query (foldl (syncQuery_spec specEngine 0)
                  (writeMask world1 0 0 (readMask (w_entityMasks world1 ! 0) 0 OR toInt32 1)) [0])"
    by (simp add: Let_def)
  from query_synchronization [of specEngine 0 world2 0 "Some 0" ?r None] h2 hc2
  have b: "h_query (state_of (removeComponent specEngine world2 (Some 0) (Some 0) None)) =
               h_query (foldl (syncQuery_spec specEngine 0)
                  (writeMask world2 0 0 (readMask (w_entityMasks world2 ! 0) 0 AND NOT (toInt32 1))) [0])"
    by (simp add: Let_def)
  have "h_query (foldl (syncQuery_spec specEngine 0)
                  (writeMask world1 0 0 (readMask (w_entityMasks world1 ! 0) 0 OR toInt32 1)) [0]) 0 =
     \<lparr>allComponents = [Some 0], toRemove = {}, entered = {0}, exited = {}, results = {0}\<rparr>"
    by (simp add: syncQuery_spec_def Let_def specEngine_def writeMask_def
        hasComponent_def generation_def world1_fields writeElem_def readMask_def toInt32_def)
  moreover have "h_query (foldl (syncQuery_spec specEngine 0)
                  (writeMask world2 0 0 (readMask (w_entityMasks world2 ! 0) 0 AND NOT (toInt32 1))) [0]) 0 =
     \<lparr>allComponents = [Some 0], toRemove = {}, entered = {}, exited = {0}, results = {}\<rparr>"
    by (simp add: syncQuery_spec_def Let_def specEngine_def writeMask_def
        hasComponent_def generation_def world2_fields writeElem_def readMask_def toInt32_def)
  ultimately show ?thesis using a b by simp
qed

section \<open>Data reset\<close>

lemma registerComponent_h_store: "h_store (state_of (registerComponent w c)) = h_store w"
  by (cases c) (simp_all add: registerComponent_def Let_def incrementBitflag_frame)

lemma addComponent_h_store:
  assumes "reset \<noteq> Some True"
  shows "h_store (state_of (addComponent E w c eid reset)) = h_store w"
proof -
  have nr: "(case reset of None \<Rightarrow> False | Some b \<Rightarrow> b) = False"
    using assms by (cases reset) auto
  have reg: "h_store (state_of (addComponent E v c (Some e) reset)) = h_store v"
    if "w_componentMap v c \<noteq> None" for v e
    using that unfolding addComponent_def nr
    by (auto simp: Let_def split: option.splits sum.splits bool.splits)
  show ?thesis
  proof (cases eid)
    case None
    then show ?thesis by (simp add: addComponent_def)
  next
    case (Some e)
    show ?thesis
    proof (cases "e \<in> w_entitySparseSet w")
      case False
      then show ?thesis using Some by (simp add: addComponent_def)
    next
      case ex: True
      show ?thesis
      proof (cases "w_componentMap w c")
        case r: (Some r)
        then show ?thesis using reg [of w e] Some by simp
      next
        case None
        note un = addComponent_unregistered [OF ex None, of E reset]
        show ?thesis
        proof (cases "registerComponent w c")
          case (Throw err w1)
          with registerComponent_Throw(1) [OF Throw] show ?thesis using un Some by simp
        next
          case (Ok w1)
          from registerComponent_Ok(1) [OF Ok] have "w_componentMap w1 c \<noteq> None" by auto
          from reg [OF this, of e] have "h_store (state_of (addComponent E w c (Some e) reset)) = h_store w1"
            using un Ok by simp
          moreover have "h_store w1 = h_store w"
            using registerComponent_h_store [of w c] Ok by simp
          ultimately show ?thesis using Some by simp
        qed
      qed
    qed
  qed
qed

lemma removeComponent_h_store:
  "h_store (state_of (removeComponent E w c eid (Some False))) = h_store w"
  unfolding removeComponent_def
  by (auto simp: Let_def removeComponent_forEach_eq split: option.splits sum.splits bool.splits)

lemma leaves_at_reset_same: "v \<in> set (leaves_at (resetStoreFor s e) e) \<Longrightarrow> v = 0"
proof (induction s arbitrary: v)
  case (Column kd arr)
  then show ?case by (auto simp: writeElem_def split: if_splits)
next
  case (Section props)
  then show ?case by (fastforce simp: image_iff)
qed simp_all

lemma leaves_at_reset_other: "e' \<noteq> e \<Longrightarrow> leaves_at (resetStoreFor s e) e' = leaves_at s e'"
proof (induction s)
  case (Column kd arr)
  then show ?case by (simp add: writeElem_def)
next
  case (Section props)
  have "map ((\<lambda>(k, s). leaves_at s e') \<circ> (\<lambda>(k, s). (k, resetStoreFor s e))) props =
        map (\<lambda>(k, s). leaves_at s e') props"
    by (rule map_cong [OF refl]) (use Section in \<open>auto simp: snds.simps\<close>)
  then show ?case by (simp only: resetStoreFor.simps leaves_at.simps map_map)
qed simp_all

text \<open>
  C7: \<open>addComponent\<close> without a \<open>reset\<close> argument leaves every store as it was;
  so does \<open>removeComponent\<close> with \<open>reset = false\<close>; and \<open>removeComponent\<close> without a
  \<open>reset\<close> argument, removing a component that is attached to an existing entity of a
  well-formed world, replaces the component's store by \<open>resetStoreFor\<close> of it, in which
  every leaf value of the entity is 0 and the values of the other entities are as before.
\<close>

theorem data_reset_defaults:
  "h_store (state_of (addComponent E w c eid None)) = h_store w \<and>
   h_store (state_of (removeComponent E w c eid (Some False))) = h_store w \<and>
   (wf_world w \<and> e \<in> w_entitySparseSet w \<and> hasComponent w (Some k) e = Inr True \<longrightarrow>
      (\<exists>w'. removeComponent E w (Some k) (Some e) None = Ok w' \<and>
            h_store w' = (h_store w)(k := resetStoreFor (h_store w k) e) \<and>
            (\<forall>v \<in> set (leaves_at (h_store w' k) e). v = 0) \<and>
            (\<forall>e'. e' \<noteq> e \<longrightarrow> leaves_at (h_store w' k) e' = leaves_at (h_store w k) e')))"
proof (intro conjI impI)
  show "h_store (state_of (addComponent E w c eid None)) = h_store w"
    by (rule addComponent_h_store) simp
  show "h_store (state_of (removeComponent E w c eid (Some False))) = h_store w"
    by (rule removeComponent_h_store)
next
  assume a: "wf_world w \<and> e \<in> w_entitySparseSet w \<and> hasComponent w (Some k) e = Inr True"
  then have wf: "wf_world w" and ex: "e \<in> w_entitySparseSet w"
    and hc: "hasComponent w (Some k) e = Inr True" by simp_all
  from hc obtain r where cm: "w_componentMap w (Some k) = Some r"
    by (auto simp: hasComponent_def split: option.splits)
  note gen = hasComponent_wf(1) [OF wf cm]
  from wf_entity(2) [OF wf ex cm] obtain cs where ec: "w_entityComponents w e = Some cs" by blast
  from removeComponent_run [OF ex cm gen hc ec, of E None] obtain w' where
    run: "removeComponent E w (Some k) (Some e) None = Ok w'" and
    st: "h_store w' = h_store (set_comp_section w (Some k) (resetStoreFor (comp_section w (Some k)) e))"
    by auto
  have st': "h_store w' = (h_store w)(k := resetStoreFor (h_store w k) e)"
    using st by (simp add: set_comp_section_def comp_section_def)
  have "\<forall>v \<in> set (leaves_at (h_store w' k) e). v = 0"
    unfolding st' using leaves_at_reset_same by auto
  moreover have "\<forall>e'. e' \<noteq> e \<longrightarrow> leaves_at (h_store w' k) e' = leaves_at (h_store w k) e'"
    unfolding st' using leaves_at_reset_other by auto
  ultimately show "\<exists>w'. removeComponent E w (Some k) (Some e) None = Ok w' \<and>
            h_store w' = (h_store w)(k := resetStoreFor (h_store w k) e) \<and>
            (\<forall>v \<in> set (leaves_at (h_store w' k) e). v = 0) \<and>
            (\<forall>e'. e' \<noteq> e \<longrightarrow> leaves_at (h_store w' k) e' = leaves_at (h_store w k) e')"
    using run st' by blast
qed

lemma hc_world2: "hasComponent world2 (Some 0) 0 = Inr True"
  by (simp add: hasComponent_def world2_fields generation_def readMask_def toInt32_def)

lemma wf_world2: "wf_world world2"
  unfolding world2_def by (rule wf_addComponent [OF wf_world1])

theorem data_reset_defaults_witness:
  "\<exists>w'. removeComponent specEngine world2 (Some 0) (Some 0) None = Ok w' \<and>
     h_store w' 0 =
       Section [(''pos'', Section [(''x'', Column F64 [0, 7]), (''y'', Column F64 [0, 7])]),
                (''hp'', Column UI8 [0, 7])] \<and>
     leaves_at (h_store w' 0) 0 = [0, 0, 0] \<and>
     leaves_at (h_store w' 0) 1 = [7, 7, 7]"
proof -
  have h: "wf_world world2 \<and> 0 \<in> w_entitySparseSet world2 \<and> hasComponent world2 (Some 0) 0 = Inr True"
    using wf_world2 hc_world2 by (simp add: world2_fields)
  with data_reset_defaults [of specEngine world2 "Some 0" None 0 0] obtain w' where
    run: "removeComponent specEngine world2 (Some 0) (Some 0) None = Ok w'" and
    st: "h_store w' = (h_store world2)(0 := resetStoreFor (h_store world2 0) 0)"
    by blast
  have "h_store w' 0 =
       Section [(''pos'', Section [(''x'', Column F64 [0, 7]), (''y'', Column F64 [0, 7])]),
                (''hp'', Column UI8 [0, 7])]"
    by (simp add: st world2_fields demoStore_def writeElem_def)
  then show ?thesis using run by simp
qed

section \<open>Properties of attribute assignment\<close>

lemma non_object_data_noop:
  "recursivelySetComponentAttributes e sec JUndefined = Ok sec"
  "recursivelySetComponentAttributes e sec (JBool b) = Ok sec"
  "recursivelySetComponentAttributes e sec (JNum n) = Ok sec"
  "recursivelySetComponentAttributes e sec (JStr s) = Ok sec"
  by simp_all

text \<open>
  C8 fails for \<open>null\<close>: \<open>typeof null\<close> is \<open>'object'\<close>, so \<open>null\<close> passes the guard
  and \<open>Object.keys(null)\<close> throws, at the top level and in a nested position, and through
  \<open>updateComponent\<close> on an attached component.
\<close>

theorem null_data_throws:
  "recursivelySetComponentAttributes 0 demoStore JNull = Throw TypeError demoStore \<and>
   recursivelySetComponentAttributes 0 demoStore (JObj [(''pos'', JNull)]) =
     Throw TypeError demoStore \<and>
   0 \<in> w_entitySparseSet world2 \<and>
   hasComponent world2 (Some 0) 0 = Inr True \<and>
   updateComponent world2 (Some 0) (Some 0) JNull = Throw TypeError world2"
proof -
  have same: "set_comp_section world2 (Some 0) (h_store world2 0) = world2"
    by (simp add: set_comp_section_def)
  have "updateComponent world2 (Some 0) (Some 0) JNull = Throw TypeError world2"
    using hc_world2 by (simp add: updateComponent_def world2_fields(6) comp_section_def same)
  moreover have "recursivelySetComponentAttributes 0 demoStore (JObj [(''pos'', JNull)]) =
     Throw TypeError demoStore"
    by (simp add: demoStore_def)
  ultimately show ?thesis using hc_world2 by (simp add: world2_fields(6))
qed

lemma toElem_small: "toElem kd 1 = 1" "toElem kd 2 = 2" "toElem kd 10 = 10"
  by (cases kd; simp)+

lemma fill_schema:
  assumes "e < length xs" "e < length ys" "e < length hs"
  shows "recursivelySetComponentAttributes e
           (Section [(''pos'', Section [(''x'', Column kx xs), (''y'', Column ky ys)]),
                     (''hp'', Column kh hs)]) demoData =
         Ok (Section [(''pos'', Section [(''x'', Column kx (xs[e := 1])),
                                         (''y'', Column ky (ys[e := 2]))]),
                      (''hp'', Column kh (hs[e := 10]))])"
  using assms by (simp add: demoData_def assignLeaf_def writeElem_def toElem_small)

lemma generation_h_store: "generation (set_comp_section w c s) g = generation w g"
  by (simp add: generation_def)

lemma hasComponent_h_store:
  "hasComponent (set_comp_section w c s) c' e = hasComponent w c' e"
  by (simp add: hasComponent_def generation_h_store cong: option.case_cong)

lemma addComponent_ok:
  assumes wf: "wf_world w" and ex: "e \<in> w_entitySparseSet w"
  shows "\<exists>w1. addComponent E w (Some k) (Some e) reset = Ok w1 \<and>
           hasComponent w1 (Some k) e = Inr True \<and> e \<in> w_entitySparseSet w1 \<and>
           (h_store w1 k = h_store w k \<or> h_store w1 k = resetStoreFor (h_store w k) e)"
proof -
  have reg: "\<exists>w1. addComponent E v (Some k) (Some e) reset = Ok w1 \<and>
           hasComponent w1 (Some k) e = Inr True \<and> e \<in> w_entitySparseSet w1 \<and>
           (h_store w1 k = h_store v k \<or> h_store w1 k = resetStoreFor (h_store v k) e)"
    if wfv: "wf_world v" and exv: "e \<in> w_entitySparseSet v"
      and cm: "w_componentMap v (Some k) = Some r" for v r
  proof -
    note a = addComponent_registered [OF wfv exv cm, of E reset]
    from a(6) obtain w1 where run: "addComponent E v (Some k) (Some e) reset = Ok w1" by blast
    have st: "h_store w1 k = h_store v k \<or> h_store w1 k = resetStoreFor (h_store v k) e"
    proof (cases "hasComponent v (Some k) e = Inr True")
      case True
      from addComponent_present [OF exv True, of E reset] run show ?thesis by simp
    next
      case False
      then have hc: "hasComponent v (Some k) e = Inr False"
        using hasComponent_wf(2) [OF wfv cm, of e] by auto
      from wf_entity(2) [OF wfv exv cm] obtain cs where ec: "w_entityComponents v e = Some cs"
        by blast
      from addComponent_run [OF exv cm hasComponent_wf(1) [OF wfv cm] hc ec, of E reset] run
      have "h_store w1 = (if reset = Some True
                         then h_store (set_comp_section v (Some k) (resetStoreFor (comp_section v (Some k)) e))
                         else h_store v)" by auto
      then show ?thesis by (simp add: set_comp_section_def comp_section_def)
    qed
    from a(2) a(5) exv run st show ?thesis by simp
  qed
  show ?thesis
  proof (cases "w_componentMap w (Some k)")
    case (Some r)
    from reg [OF wf ex Some] show ?thesis .
  next
    case None
    have "registerComponent w (Some k) \<noteq> Throw err w1" for err w1
      by (simp add: registerComponent_def Let_def)
    then obtain w0 where Ok: "registerComponent w (Some k) = Ok w0"
      by (cases "registerComponent w (Some k)") auto
    from registerComponent_Ok [OF Ok] obtain r where
      r: "w_componentMap w0 (Some k) = Some r" and s: "w_entitySparseSet w0 = w_entitySparseSet w"
      by blast
    have wf0: "wf_world w0" by (rule wf_registerComponent [OF wf Ok])
    have ex0: "e \<in> w_entitySparseSet w0" using ex s by simp
    have st0: "h_store w0 = h_store w" using registerComponent_h_store [of w "Some k"] Ok by simp
    have "addComponent E w (Some k) (Some e) reset = addComponent E w0 (Some k) (Some e) reset"
      using addComponent_unregistered [OF ex None, of E reset] Ok by simp
    with reg [OF wf0 ex0 r] show ?thesis unfolding st0 by simp
  qed
qed

text \<open>
  C9: for a component whose store has the schema \<open>{pos: {x, y}, hp}\<close> and an existing
  entity \<open>e\<close> within the columns, \<open>addAndPartiallyFillComponent\<close> (and
  \<open>addAndFillComponent\<close>) with the data \<open>{pos: {x: 1, y: 2}, hp: 10}\<close> first adds the
  component, so that it is attached, and then updates: afterwards \<open>C.pos.x[e]\<close> is 1,
  \<open>C.pos.y[e]\<close> is 2 and \<open>C.hp[e]\<close> is 10, and nothing else of the store has changed.
\<close>

theorem nested_attribute_assignment:
  assumes "wf_world w" and "e \<in> w_entitySparseSet w"
    and "h_store w k = Section [(''pos'', Section [(''x'', Column kx xs), (''y'', Column ky ys)]),
                                (''hp'', Column kh hs)]"
    and "e < length xs" and "e < length ys" and "e < length hs"
  shows "\<exists>w1 w'.
           addComponent E w (Some k) (Some e) (Some (reset = Some True)) = Ok w1 \<and>
           updateComponent w1 (Some k) (Some e) demoData = Ok w' \<and>
           addAndPartiallyFillComponent E w (Some k) (Some e) demoData reset = Ok w' \<and>
           addAndFillComponent E w (Some k) (Some e) demoData reset = Ok w' \<and>
           hasComponent w1 (Some k) e = Inr True \<and>
           hasComponent w' (Some k) e = Inr True \<and>
           h_store w' k =
             Section [(''pos'', Section [(''x'', Column kx (xs[e := 1])),
                                         (''y'', Column ky (ys[e := 2]))]),
                      (''hp'', Column kh (hs[e := 10]))] \<and>
           elemAt (readPath (h_store w' k) [''pos'', ''x'']) e = Some 1 \<and>
           elemAt (readPath (h_store w' k) [''pos'', ''y'']) e = Some 2 \<and>
           elemAt (readPath (h_store w' k) [''hp'']) e = Some 10"
proof -
  let ?S = "\<lambda>xs ys hs. Section [(''pos'', Section [(''x'', Column kx xs), (''y'', Column ky ys)]),
                                (''hp'', Column kh hs)]"
  have rs: "(case reset of None \<Rightarrow> False | Some b \<Rightarrow> b) = (reset = Some True)"
    by (cases reset) auto
  from addComponent_ok [OF assms(1,2), of E k "Some (reset = Some True)"] obtain w1 where
    run1: "addComponent E w (Some k) (Some e) (Some (reset = Some True)) = Ok w1" and
    hc1: "hasComponent w1 (Some k) e = Inr True" and ex1: "e \<in> w_entitySparseSet w1" and
    st1: "h_store w1 k = h_store w k \<or> h_store w1 k = resetStoreFor (h_store w k) e"
    by blast
  from st1 have "h_store w1 k = ?S xs ys hs \<or> h_store w1 k = ?S (xs[e := 0]) (ys[e := 0]) (hs[e := 0])"
    using assms(4-6) by (auto simp: assms(3) writeElem_def)
  then have fill: "recursivelySetComponentAttributes e (h_store w1 k) demoData =
      Ok (?S (xs[e := 1]) (ys[e := 2]) (hs[e := 10]))"
  proof
    assume "h_store w1 k = ?S xs ys hs"
    then show ?thesis using fill_schema [OF assms(4-6), of kx ky kh] by simp
  next
    assume "h_store w1 k = ?S (xs[e := 0]) (ys[e := 0]) (hs[e := 0])"
    then show ?thesis
      using fill_schema [of e "xs[e := 0]" "ys[e := 0]" "hs[e := 0]" kx ky kh] assms(4-6)
      by simp
  qed
  let ?w' = "set_comp_section w1 (Some k) (?S (xs[e := 1]) (ys[e := 2]) (hs[e := 10]))"
  have run2: "updateComponent w1 (Some k) (Some e) demoData = Ok ?w'"
    using ex1 hc1 fill by (simp add: updateComponent_def comp_section_def)
  have st': "h_store ?w' k = ?S (xs[e := 1]) (ys[e := 2]) (hs[e := 10])"
    by (simp add: set_comp_section_def)
  have hc': "hasComponent ?w' (Some k) e = Inr True"
    using hc1 by (simp only: hasComponent_h_store)
  have p: "addAndPartiallyFillComponent E w (Some k) (Some e) demoData reset = Ok ?w'"
    unfolding addAndPartiallyFillComponent_def rs using run1 run2 by simp
  have f: "addAndFillComponent E w (Some k) (Some e) demoData reset = Ok ?w'"
    unfolding addAndFillComponent_def addAndPartiallyFillComponent_def rs
    using run1 run2 by simp
  have rd: "elemAt (readPath (h_store ?w' k) [''pos'', ''x'']) e = Some 1"
    "elemAt (readPath (h_store ?w' k) [''pos'', ''y'']) e = Some 2"
    "elemAt (readPath (h_store ?w' k) [''hp'']) e = Some 10"
    unfolding st' using assms(4-6) by simp_all
  show ?thesis using run1 run2 p f hc1 hc' st' rd by blast
qed

theorem nested_attribute_assignment_witness:
  "\<exists>w'. addAndPartiallyFillComponent specEngine world0 (Some 0) (Some 1) demoData None = Ok w' \<and>
     hasComponent w' (Some 0) 1 = Inr True \<and>
     h_store w' 0 =
       Section [(''pos'', Section [(''x'', Column F64 [7, 1]), (''y'', Column F64 [7, 2])]),
                (''hp'', Column UI8 [7, 10])]"
proof -
  have ex: "1 \<in> w_entitySparseSet world0" by (simp add: world0_def)
  have st: "h_store world0 0 =
      Section [(''pos'', Section [(''x'', Column F64 [7, 7]), (''y'', Column F64 [7, 7])]),
               (''hp'', Column UI8 [7, 7])]"
    by (simp add: world0_def demoStore_def)
  have l: "1 < length [7, 7 :: int]" by simp
  from nested_attribute_assignment [OF wf_world0 ex st l l l, of specEngine None]
  show ?thesis by auto
qed

lemma wf_createWorld: "wf_world (createWorld sz)"
proof -
  have "usable_bit (2 ^ 0)" by (rule usable_bit_pow) simp
  then show ?thesis by (simp add: wf_world_def createWorld_def)
qed

lemma wf_updateComponent:
  assumes "wf_world w"
  shows "wf_world (state_of (updateComponent w c eid data))"
proof -
  have "wf_world (set_comp_section w c s)" for s
    using assms by (simp add: wf_world_fields [of "set_comp_section w c s" w])
  then show ?thesis using assms unfolding updateComponent_def
    by (auto split: option.splits sum.splits bool.splits result.splits)
qed

end
